theory Spec2Isabelle
  imports Main "HOL-Library.Multiset"
begin

section \<open>Device automation discovery (homeassistant.components.device_automation)\<close>

text \<open>
  The component lists the actions, conditions and triggers that the integrations related
  to one device offer. This theory embeds \<^verbatim>\<open>_async_get_device_automations_from_domain\<close>,
  \<^verbatim>\<open>_async_get_device_automations\<close> and the three websocket handlers. The registries, the
  integration loader and the plugins are parameters of the model, gathered in the record
  \<open>hass\<close>. Python identifiers that start with an underscore lose it here.
\<close>

subsection \<open>Exceptions\<close>

text \<open>
  Exceptions are values. \<open>AttributeError a\<close> is what Python raises when the attribute
  \<open>a\<close> of \<^verbatim>\<open>None\<close> is read; \<open>Exception m\<close> stands for any other exception a plugin or the
  loader may raise.
\<close>

datatype exn =
    AttributeError string
  | IntegrationNotFound string
  | ImportError
  | Exception string

text \<open>
  The component never checks the device it looks up: a device id that the registry does
  not know yields \<^verbatim>\<open>None\<close>, and reading \<^verbatim>\<open>device.config_entries\<close> raises. This is the failure
  the specification calls DeviceNotFound.
\<close>

definition DeviceNotFound :: exn where
  "DeviceNotFound = AttributeError ''config_entries''"

subsection \<open>Registries, loader and plugins\<close>

record device =
  config_entries :: "string list"

record config_entry =
  domain :: string

record entity =
  entity_id :: string

text \<open>
  A listing coroutine of a plugin (\<^verbatim>\<open>async_get_actions\<close>, ...) takes the device id and
  raises, returns \<^verbatim>\<open>None\<close>, or returns a list of descriptors of the plugin's own type \<open>'d\<close>.
  A platform module maps attribute names to such coroutines (\<^verbatim>\<open>hasattr\<close>/\<^verbatim>\<open>getattr\<close>).
\<close>

type_synonym 'd listing = "string \<Rightarrow> exn + 'd list option"

type_synonym 'd platform = "string \<rightharpoonup> 'd listing"

datatype 'd integration = Integration (get_platform: "string \<Rightarrow> exn + 'd platform")

text \<open>
  Modelled from the spec: the device registry (\<^verbatim>\<open>get(device_id)\<close>, which may miss), the
  entity registry (\<^verbatim>\<open>entries_for_device\<close>), the config-entry manager (\<^verbatim>\<open>get_entry\<close>) and the
  integration loader (\<^verbatim>\<open>get_integration\<close>, \<^verbatim>\<open>get_platform\<close>) are outside the component. A miss
  of a lookup is \<open>None\<close>, as Python's \<^verbatim>\<open>None\<close>; a raise of the loader is \<open>Inl\<close>.
\<close>

record 'd hass =
  device_registry :: "string \<rightharpoonup> device"
  async_entries_for_device :: "string \<Rightarrow> entity list"
  async_get_entry :: "string \<rightharpoonup> config_entry"
  async_get_integration :: "string \<Rightarrow> exn + 'd integration"

text \<open>
  Two things are left open by Python and asyncio: the order in which a \<^verbatim>\<open>set\<close> of strings
  is iterated, and the order in which concurrently running coroutines finish. Both are
  parameters: \<open>set_rank\<close> ranks the elements of a set (iteration goes by rank), and \<open>delay\<close>
  gives the time the fetch for a domain takes. Every theorem below holds for all of them.
\<close>

record runtime =
  set_rank :: "string \<Rightarrow> nat"
  delay :: "string \<Rightarrow> nat"

text \<open>
  Modelled from the spec: \<^verbatim>\<open>homeassistant.core.split_entity_id\<close> splits an entity id
  \<^verbatim>\<open><domain>.<object>\<close> at the first separator (\<^verbatim>\<open>entity_id.split(".", 1)\<close>).
\<close>

definition split_entity_id :: "string \<Rightarrow> string list" where
  "split_entity_id eid =
     (let prefix = takeWhile (\<lambda>c. c \<noteq> CHR ''.'') eid
      in if length prefix = length eid then [eid]
         else [prefix, drop (Suc (length prefix)) eid])"

subsection \<open>Calls issued to the loader and to plugins\<close>

datatype call =
    GetIntegration string
  | LogWarning string
  | GetPlatform string
  | Listing string string string

text \<open>The domains whose integration was asked of the loader, in the order of the log.\<close>

fun resolved_domains :: "call list \<Rightarrow> string list" where
  "resolved_domains [] = []"
| "resolved_domains (GetIntegration dmn # calls) = dmn # resolved_domains calls"
| "resolved_domains (c # calls) = resolved_domains calls"

subsection \<open>Fetching from one domain\<close>

text \<open>
  \<^verbatim>\<open>_async_get_device_automations_from_domain(hass, domain, fname, device_id)\<close>. The result
  is the outcome (a raise, \<^verbatim>\<open>None\<close>, or the plugin's list) and the calls made.
  \<^verbatim>\<open>except IntegrationNotFound\<close> and \<^verbatim>\<open>except ImportError\<close> catch those two exceptions only.
  When the platform has no attribute \<open>fname\<close> the function falls off its end and returns
  \<^verbatim>\<open>None\<close>.
\<close>

definition async_get_device_automations_from_domain ::
  "'d hass \<Rightarrow> string \<Rightarrow> string \<Rightarrow> string \<Rightarrow> (exn + 'd list option) \<times> call list" where
  "async_get_device_automations_from_domain hass dmn fname device_id =
     (case async_get_integration hass dmn of
        Inl err \<Rightarrow>
          (case err of
             IntegrationNotFound _ \<Rightarrow> (Inr None, [GetIntegration dmn, LogWarning dmn])
           | _ \<Rightarrow> (Inl err, [GetIntegration dmn]))
      | Inr integration \<Rightarrow>
          (case get_platform integration ''device_automation'' of
             Inl err \<Rightarrow>
               (case err of
                  ImportError \<Rightarrow> (Inr None, [GetIntegration dmn, GetPlatform dmn])
                | _ \<Rightarrow> (Inl err, [GetIntegration dmn, GetPlatform dmn]))
           | Inr platform \<Rightarrow>
               (case platform fname of
                  None \<Rightarrow> (Inr None, [GetIntegration dmn, GetPlatform dmn])
                | Some listing \<Rightarrow>
                    (listing device_id,
                     [GetIntegration dmn, GetPlatform dmn, Listing dmn fname device_id]))))"

subsection \<open>The domains of a device\<close>

text \<open>
  The first loop of \<^verbatim>\<open>_async_get_device_automations\<close>: the domain of every config entry of
  the device is added to the set \<open>domains\<close>. The set is a list without duplicates
  (\<open>List.insert\<close> adds an element that is not yet there). Reading \<^verbatim>\<open>config_entry.domain\<close>
  of an entry the manager does not know raises.
\<close>

fun add_config_entry_domains :: "'d hass \<Rightarrow> string list \<Rightarrow> string list \<Rightarrow> exn + string list" where
  "add_config_entry_domains hass [] domains = Inr domains"
| "add_config_entry_domains hass (entry_id # entry_ids) domains =
     (case async_get_entry hass entry_id of
        None \<Rightarrow> Inl (AttributeError ''domain'')
      | Some entry \<Rightarrow>
          add_config_entry_domains hass entry_ids (List.insert (domain entry) domains))"

text \<open>The second loop: the domain prefix of every entity of the device.\<close>

definition add_entity_domains :: "entity list \<Rightarrow> string list \<Rightarrow> string list" where
  "add_entity_domains entities domains =
     fold (\<lambda>e ds. List.insert (hd (split_entity_id (entity_id e))) ds) entities domains"

text \<open>Lines 75 to 84 of the source: the set of domains, or the exception raised on the way.\<close>

definition device_domains :: "'d hass \<Rightarrow> string \<Rightarrow> exn + string list" where
  "device_domains hass device_id =
     (case device_registry hass device_id of
        None \<Rightarrow> Inl DeviceNotFound
      | Some dev \<Rightarrow>
          (case add_config_entry_domains hass (config_entries dev) [] of
             Inl err \<Rightarrow> Inl err
           | Inr domains \<Rightarrow>
               Inr (add_entity_domains (async_entries_for_device hass device_id) domains)))"

subsection \<open>asyncio.gather\<close>

text \<open>
  \<^verbatim>\<open>asyncio.gather\<close> without \<^verbatim>\<open>return_exceptions\<close>: the awaitables run concurrently; the
  first exception one of them raises is propagated to the caller at once; when all have
  returned, the results are handed back in the order of the awaitables, whatever the
  order of completion. The completions are processed here in the order of their finishing
  times (ties go to the awaitable created first), each result stored in its own slot.
\<close>

fun gather_loop :: "(nat \<times> nat \<times> (exn + 'r)) list \<Rightarrow> 'r option list \<Rightarrow> exn + 'r option list" where
  "gather_loop [] results = Inr results"
| "gather_loop ((t, i, Inl err) # completions) results = Inl err"
| "gather_loop ((t, i, Inr r) # completions) results =
     gather_loop completions (results[i := Some r])"

definition gather :: "nat list \<Rightarrow> (exn + 'r) list \<Rightarrow> exn + 'r list" where
  "gather finish outcomes =
     (let n = length outcomes;
          completions = sort_key fst (zip finish (zip [0..<n] outcomes))
      in case gather_loop completions (replicate n None) of
           Inl err \<Rightarrow> Inl err
         | Inr results \<Rightarrow> Inr (map the results))"

subsection \<open>Aggregation over the domains of a device\<close>

text \<open>The last loop: every result that is not \<^verbatim>\<open>None\<close> extends the list \<open>automations\<close>.\<close>

definition extend_all :: "'d list option list \<Rightarrow> 'd list \<Rightarrow> 'd list" where
  "extend_all device_automations automations =
     fold (\<lambda>device_automation acc.
             case device_automation of None \<Rightarrow> acc | Some xs \<Rightarrow> acc @ xs)
          device_automations automations"

text \<open>
  \<^verbatim>\<open>_async_get_device_automations(hass, fname, device_id)\<close>. One fetch per domain is created,
  in the iteration order of the set; all of them run, so the calls of all of them are
  issued, listed here fetch by fetch in the order of creation.
\<close>

definition async_get_device_automations ::
  "'d hass \<Rightarrow> runtime \<Rightarrow> string \<Rightarrow> string \<Rightarrow> (exn + 'd list) \<times> call list" where
  "async_get_device_automations hass rt fname device_id =
     (case device_domains hass device_id of
        Inl err \<Rightarrow> (Inl err, [])
      | Inr domains \<Rightarrow>
          (let enumerated = sort_key (set_rank rt) domains;
               fetches = map (\<lambda>dmn. async_get_device_automations_from_domain
                                       hass dmn fname device_id) enumerated
           in (case gather (map (delay rt) enumerated) (map fst fetches) of
                 Inl err \<Rightarrow> Inl err
               | Inr device_automations \<Rightarrow> Inr (extend_all device_automations []),
               concat (map snd fetches))))"

subsection \<open>Websocket handlers\<close>

text \<open>
  A message is a JSON object, kept as the list of its keys and values; \<open>map_of\<close> reads a
  key as \<^verbatim>\<open>msg[key]\<close> does. Numbers are integers here.
\<close>

datatype jvalue = JStr string | JInt int | JBool bool | JNull

type_synonym message = "(string \<times> jvalue) list"

text \<open>
  Modelled from the spec: the command protocol keys every request by a correlation id, which
  its base schema requires and checks with \<^verbatim>\<open>positive_int\<close>: the value is coerced with Python's
  \<^verbatim>\<open>int\<close> and must not be negative. An integer is itself, a boolean is 0 or 1, a string
  is read as decimal digits with an optional sign, \<^verbatim>\<open>None\<close> has no integer. The other
  spellings that \<^verbatim>\<open>int\<close> reads from a string (surrounding blanks, underscores between digits)
  are rejected here.
\<close>

definition digit_of :: "char \<Rightarrow> nat option" where
  "digit_of c = map_of (zip ''0123456789'' [0, 1, 2, 3, 4, 5, 6, 7, 8, 9]) c"

fun digits :: "string \<Rightarrow> nat \<Rightarrow> nat option" where
  "digits [] acc = Some acc"
| "digits (c # cs) acc =
     (case digit_of c of None \<Rightarrow> None | Some d \<Rightarrow> digits cs (10 * acc + d))"

definition int_of_str :: "string \<Rightarrow> int option" where
  "int_of_str s =
     (case s of
        [] \<Rightarrow> None
      | c # cs \<Rightarrow>
          if c = CHR ''-'' then
            (if cs = [] then None else map_option (\<lambda>n. - int n) (digits cs 0))
          else if c = CHR ''+'' then
            (if cs = [] then None else map_option int (digits cs 0))
          else map_option int (digits s 0))"

fun coerce_int :: "jvalue \<Rightarrow> int option" where
  "coerce_int (JInt n) = Some n"
| "coerce_int (JBool b) = Some (if b then 1 else 0)"
| "coerce_int (JStr s) = int_of_str s"
| "coerce_int JNull = None"

text \<open>
  The validators of the schemas: a literal string that the value must equal, \<^verbatim>\<open>str\<close>, which
  accepts every string and nothing else, and \<^verbatim>\<open>positive_int\<close>. A validator yields the
  validated value, or nothing when it rejects.
\<close>

datatype validator = Literal string | IsStr | PositiveInt

fun validates :: "validator \<Rightarrow> jvalue \<Rightarrow> jvalue option" where
  "validates (Literal s) v = (if v = JStr s then Some v else None)"
| "validates IsStr (JStr s) = Some (JStr s)"
| "validates IsStr v = None"
| "validates PositiveInt v =
     (case coerce_int v of
        None \<Rightarrow> None
      | Some n \<Rightarrow> if 0 \<le> n then Some (JInt n) else None)"

text \<open>
  A schema lists its keys with their validators. Every key is \<^verbatim>\<open>vol.Required\<close>: a message
  that lacks one is rejected, and so is a message with a value its validator rejects.
\<close>

fun validate_fields :: "(string \<times> validator) list \<Rightarrow> message \<Rightarrow> message option" where
  "validate_fields [] msg = Some []"
| "validate_fields ((key, va) # schema) msg =
     (case map_of msg key of
        None \<Rightarrow> None
      | Some v \<Rightarrow>
          (case validates va v of
             None \<Rightarrow> None
           | Some v' \<Rightarrow>
               (case validate_fields schema msg of
                  None \<Rightarrow> None
                | Some valid \<Rightarrow> Some ((key, v') # valid))))"

text \<open>
  A schema allows no key beyond its own: a message with another key is rejected. The
  outcome is the validated message, or nothing.
\<close>

definition validate :: "(string \<times> validator) list \<Rightarrow> message \<Rightarrow> message option" where
  "validate schema msg =
     (if list_all (\<lambda>(key, v). key \<in> set (map fst schema)) msg
      then validate_fields schema msg else None)"

definition schema_accepts :: "(string \<times> validator) list \<Rightarrow> message \<Rightarrow> bool" where
  "schema_accepts schema msg = (validate schema msg \<noteq> None)"

datatype 'd response =
    Result "jvalue option" "'d list"
  | ErrorResponse "jvalue option" exn
  | Rejected

text \<open>
  Modelled from the spec: \<^verbatim>\<open>websocket_api.websocket_command\<close> extends the base schema of
  commands, which holds the id, by the schema of the handler; the dispatcher answers a
  message that the extended schema rejects without running the handler, and runs the
  handler on the validated message otherwise. \<^verbatim>\<open>websocket_api.async_response\<close> turns an
  exception that escapes the handler into an error response for the request, and
  \<^verbatim>\<open>connection.send_result\<close> answers with the result under the id of the request. What the
  connection remembers between requests (the ids already used) is left out.
\<close>

definition command_schema :: "(string \<times> validator) list \<Rightarrow> (string \<times> validator) list" where
  "command_schema schema = (''id'', PositiveInt) # schema"

definition async_response ::
  "message \<Rightarrow> (exn + 'd list) \<times> call list \<Rightarrow> 'd response \<times> call list" where
  "async_response msg run =
     (case fst run of
        Inl err \<Rightarrow> (ErrorResponse (map_of msg ''id'') err, snd run)
      | Inr result \<Rightarrow> (Result (map_of msg ''id'') result, snd run))"

definition websocket_command ::
  "(string \<times> validator) list \<Rightarrow> (message \<Rightarrow> 'd response \<times> call list) \<Rightarrow> message
     \<Rightarrow> 'd response \<times> call list" where
  "websocket_command schema handler msg =
     (case validate (command_schema schema) msg of
        None \<Rightarrow> (Rejected, [])
      | Some valid \<Rightarrow> handler valid)"

definition list_actions_schema :: "(string \<times> validator) list" where
  "list_actions_schema =
     [(''type'', Literal ''device_automation/action/list''), (''device_id'', IsStr)]"

definition list_conditions_schema :: "(string \<times> validator) list" where
  "list_conditions_schema =
     [(''type'', Literal ''device_automation/condition/list''), (''device_id'', IsStr)]"

definition list_triggers_schema :: "(string \<times> validator) list" where
  "list_triggers_schema =
     [(''type'', Literal ''device_automation/trigger/list''), (''device_id'', IsStr)]"

text \<open>
  The body shared by the three handlers, for the listing coroutine named \<open>fname\<close>. The
  schema lets a message through only when \<open>device_id\<close> is there and is a string; the last
  case, which no validated message reaches, stands for the failure of \<^verbatim>\<open>msg["device_id"]\<close>.
\<close>

definition handle_list ::
  "'d hass \<Rightarrow> runtime \<Rightarrow> string \<Rightarrow> message \<Rightarrow> 'd response \<times> call list" where
  "handle_list hass rt fname msg =
     (case map_of msg ''device_id'' of
        Some (JStr device_id) \<Rightarrow>
          async_response msg (async_get_device_automations hass rt fname device_id)
      | _ \<Rightarrow> (ErrorResponse (map_of msg ''id'') (Exception ''device_id''), []))"

definition websocket_device_automation_list_actions ::
  "'d hass \<Rightarrow> runtime \<Rightarrow> message \<Rightarrow> 'd response \<times> call list" where
  "websocket_device_automation_list_actions hass rt =
     websocket_command list_actions_schema (handle_list hass rt ''async_get_actions'')"

definition websocket_device_automation_list_conditions ::
  "'d hass \<Rightarrow> runtime \<Rightarrow> message \<Rightarrow> 'd response \<times> call list" where
  "websocket_device_automation_list_conditions hass rt =
     websocket_command list_conditions_schema (handle_list hass rt ''async_get_conditions'')"

definition websocket_device_automation_list_triggers ::
  "'d hass \<Rightarrow> runtime \<Rightarrow> message \<Rightarrow> 'd response \<times> call list" where
  "websocket_device_automation_list_triggers hass rt =
     websocket_command list_triggers_schema (handle_list hass rt ''async_get_triggers'')"

subsection \<open>Notions used to state the properties\<close>

text \<open>
  What one per-domain result adds to the list in the last loop: nothing for \<^verbatim>\<open>None\<close>.
\<close>

definition contribution :: "'d list option \<Rightarrow> 'd list" where
  "contribution r = (case r of None \<Rightarrow> [] | Some xs \<Rightarrow> xs)"

text \<open>
  The list a call hands back, if it returns one rather than raising.
\<close>

definition merged :: "exn + 'a \<Rightarrow> 'a option" where
  "merged r = (case r of Inl err \<Rightarrow> None | Inr xs \<Rightarrow> Some xs)"

text \<open>
  The outcome of the call \<^verbatim>\<open>getattr(platform, fname)(hass, device_id)\<close> of line 65, when
  the fetch for the domain reaches it: the integration and its platform load and the
  platform has the attribute.
\<close>

definition listing_call :: "'d hass \<Rightarrow> string \<Rightarrow> string \<Rightarrow> string \<Rightarrow> (exn + 'd list option) option" where
  "listing_call hass dmn fname device_id =
     (case async_get_integration hass dmn of
        Inl err \<Rightarrow> None
      | Inr integration \<Rightarrow>
          (case get_platform integration ''device_automation'' of
             Inl err \<Rightarrow> None
           | Inr platform \<Rightarrow>
               (case platform fname of
                  None \<Rightarrow> None
                | Some listing \<Rightarrow> Some (listing device_id))))"

text \<open>
  A request message with the three keys the command protocol asks for.
\<close>

definition request :: "jvalue \<Rightarrow> string \<Rightarrow> string \<Rightarrow> message" where
  "request rid cmd device_id =
     [(''id'', rid), (''type'', JStr cmd), (''device_id'', JStr device_id)]"

text \<open>
  An integration whose device automation platform offers the listing \<open>fname\<close> and lists
  nothing: a domain that contributes an empty sequence.
\<close>

definition lists_nothing :: "string \<Rightarrow> 'd integration" where
  "lists_nothing fname =
     Integration (\<lambda>name. Inr [fname \<mapsto> (\<lambda>device_id. Inr (Some []))])"

text \<open>
  The position of an element in a list without duplicates: the rank under which a set is
  enumerated in the order of that list.
\<close>

definition position :: "'a list \<Rightarrow> 'a \<Rightarrow> nat" where
  "position ys x = length (takeWhile (\<lambda>y. y \<noteq> x) ys)"

subsection \<open>Sequential aggregation\<close>

text \<open>
  The aggregation as the specification words it for comparison: the domains are fetched
  one after the other in the order of enumeration, the first exception ends the run, and
  the results that are not \<^verbatim>\<open>None\<close> are concatenated.
\<close>

fun fetch_sequentially :: "'d hass \<Rightarrow> string list \<Rightarrow> string \<Rightarrow> string \<Rightarrow> exn + 'd list" where
  "fetch_sequentially hass [] fname device_id = Inr []"
| "fetch_sequentially hass (dmn # domains) fname device_id =
     (case fst (async_get_device_automations_from_domain hass dmn fname device_id) of
        Inl err \<Rightarrow> Inl err
      | Inr r \<Rightarrow>
          (case fetch_sequentially hass domains fname device_id of
             Inl err \<Rightarrow> Inl err
           | Inr rest \<Rightarrow> Inr ((case r of None \<Rightarrow> [] | Some xs \<Rightarrow> xs) @ rest)))"

definition sequential_get_device_automations ::
  "'d hass \<Rightarrow> (string \<Rightarrow> nat) \<Rightarrow> string \<Rightarrow> string \<Rightarrow> exn + 'd list" where
  "sequential_get_device_automations hass rank fname device_id =
     (case device_domains hass device_id of
        Inl err \<Rightarrow> Inl err
      | Inr domains \<Rightarrow> fetch_sequentially hass (sort_key rank domains) fname device_id)"

subsection \<open>An installation to run the model on\<close>

text \<open>
  Device \<open>D\<close> of the specification's scenario has config entries of the domains alarm and
  light and the entities \<open>sensor.outside_temp\<close> and \<open>light.kitchen\<close>. The alarm integration
  has no device automation platform, light lists one trigger, sensor's trigger listing
  returns \<^verbatim>\<open>None\<close>. Devices \<open>D3\<close> and \<open>D4\<close> belong to integrations whose condition listing
  raises; \<open>D5\<close> has no config entry and no entity. The runtime enumerates short domain
  names first and lets the fetches of long names finish first.
\<close>

definition example_hass :: "string hass" where
  "example_hass = \<lparr>
     device_registry =
       [''D'' \<mapsto> \<lparr>config_entries = [''entry_alarm'', ''entry_light'']\<rparr>,
        ''D3'' \<mapsto> \<lparr>config_entries = [''entry_climate'']\<rparr>,
        ''D4'' \<mapsto> \<lparr>config_entries = [''entry_climate'', ''entry_fan'']\<rparr>,
        ''D5'' \<mapsto> \<lparr>config_entries = []\<rparr>],
     async_entries_for_device =
       (\<lambda>device_id. if device_id = ''D''
          then [\<lparr>entity_id = ''sensor.outside_temp''\<rparr>, \<lparr>entity_id = ''light.kitchen''\<rparr>]
          else []),
     async_get_entry =
       [''entry_alarm'' \<mapsto> \<lparr>domain = ''alarm''\<rparr>,
        ''entry_light'' \<mapsto> \<lparr>domain = ''light''\<rparr>,
        ''entry_climate'' \<mapsto> \<lparr>domain = ''climate''\<rparr>,
        ''entry_fan'' \<mapsto> \<lparr>domain = ''fan''\<rparr>],
     async_get_integration =
       (\<lambda>dmn.
          if dmn = ''alarm'' then Inr (Integration (\<lambda>name. Inl ImportError))
          else if dmn = ''light'' then
            Inr (Integration (\<lambda>name. Inr [''async_get_triggers'' \<mapsto> (\<lambda>device_id. Inr (Some [''T1'']))]))
          else if dmn = ''sensor'' then
            Inr (Integration (\<lambda>name. Inr [''async_get_triggers'' \<mapsto> (\<lambda>device_id. Inr None)]))
          else if dmn = ''climate'' then
            Inr (Integration (\<lambda>name. Inr [''async_get_conditions'' \<mapsto>
                   (\<lambda>device_id. Inl (Exception ''climate failed''))]))
          else if dmn = ''fan'' then
            Inr (Integration (\<lambda>name. Inr [''async_get_conditions'' \<mapsto>
                   (\<lambda>device_id. Inl (Exception ''fan failed''))]))
          else Inl (IntegrationNotFound dmn))
   \<rparr>"

definition example_rt :: runtime where
  "example_rt = \<lparr>set_rank = length, delay = (\<lambda>dmn. 10 - length dmn)\<rparr>"

section \<open>Properties of the parts\<close>

subsection \<open>The call log\<close>

lemma resolved_domains_append:
  "resolved_domains (xs @ ys) = resolved_domains xs @ resolved_domains ys"
  by (induction xs rule: resolved_domains.induct) auto

lemma fetch_resolved:
  "resolved_domains (snd (async_get_device_automations_from_domain hass dmn fname device_id)) = [dmn]"
  by (auto simp: async_get_device_automations_from_domain_def
           split: sum.splits exn.splits option.splits)

lemma fetches_resolved:
  "resolved_domains (concat (map (\<lambda>dmn. snd (async_get_device_automations_from_domain
      hass dmn fname device_id)) ds)) = ds"
  by (induction ds) (simp_all add: resolved_domains_append fetch_resolved)

subsection \<open>The domains of a device\<close>

lemma hd_split_entity_id: "hd (split_entity_id eid) = takeWhile (\<lambda>c. c \<noteq> CHR ''.'') eid"
proof (cases "length (takeWhile (\<lambda>c. c \<noteq> CHR ''.'') eid) = length eid")
  case True
  have "takeWhile (\<lambda>c. c \<noteq> CHR ''.'') eid @ dropWhile (\<lambda>c. c \<noteq> CHR ''.'') eid = eid"
    by (rule takeWhile_dropWhile_id)
  with True have tw: "takeWhile (\<lambda>c. c \<noteq> CHR ''.'') eid = eid"
    by (metis append_eq_append_conv append_Nil2)
  show ?thesis unfolding split_entity_id_def Let_def tw by simp
next
  case False
  then show ?thesis by (simp add: split_entity_id_def Let_def)
qed

lemma add_config_entry_domains_ok:
  "\<forall>eid \<in> set eids. async_get_entry hass eid \<noteq> None \<Longrightarrow>
   \<exists>ds'. add_config_entry_domains hass eids ds = Inr ds' \<and>
         set ds' = set ds \<union> {domain ce | eid ce. eid \<in> set eids \<and> async_get_entry hass eid = Some ce} \<and>
         (distinct ds \<longrightarrow> distinct ds')"
proof (induction eids arbitrary: ds)
  case Nil
  then show ?case by simp
next
  case (Cons eid eids)
  then obtain ce where ce: "async_get_entry hass eid = Some ce" by auto
  from Cons.prems have "\<forall>eid \<in> set eids. async_get_entry hass eid \<noteq> None" by simp
  from Cons.IH [OF this, of "List.insert (domain ce) ds"]
  obtain ds' where ds': "add_config_entry_domains hass eids (List.insert (domain ce) ds) = Inr ds'"
     "set ds' = set (List.insert (domain ce) ds) \<union>
        {domain ce | eid ce. eid \<in> set eids \<and> async_get_entry hass eid = Some ce}"
     "distinct (List.insert (domain ce) ds) \<longrightarrow> distinct ds'"
    by blast
  have "set ds' = set ds \<union> {domain c | e c. e \<in> set (eid # eids) \<and> async_get_entry hass e = Some c}"
    using ds'(2) ce by auto
  with ds' ce show ?case by simp
qed

lemma add_config_entry_domains_fail:
  "\<exists>eid \<in> set eids. async_get_entry hass eid = None \<Longrightarrow>
   add_config_entry_domains hass eids ds = Inl (AttributeError ''domain'')"
  by (induction eids arbitrary: ds) (auto split: option.splits)

lemma add_config_entry_domains_distinct:
  "add_config_entry_domains hass eids ds = Inr ds' \<Longrightarrow> distinct ds \<Longrightarrow> distinct ds'"
  by (induction eids arbitrary: ds) (auto split: option.splits)

lemma set_add_entity_domains:
  "set (add_entity_domains es ds) = set ds \<union> (\<lambda>e. hd (split_entity_id (entity_id e))) ` set es"
  unfolding add_entity_domains_def by (induction es arbitrary: ds) auto

lemma distinct_add_entity_domains:
  "distinct ds \<Longrightarrow> distinct (add_entity_domains es ds)"
  unfolding add_entity_domains_def by (induction es arbitrary: ds) auto

lemma device_domains_distinct:
  "device_domains hass device_id = Inr ds \<Longrightarrow> distinct ds"
  by (auto simp: device_domains_def distinct_add_entity_domains
           split: option.splits sum.splits
           dest!: add_config_entry_domains_distinct)

lemma device_domains_unknown:
  "device_registry hass device_id = None \<Longrightarrow> device_domains hass device_id = Inl DeviceNotFound"
  by (simp add: device_domains_def)

lemma device_domains_known:
  assumes "device_registry hass device_id = Some dev"
    and "\<forall>eid \<in> set (config_entries dev). async_get_entry hass eid \<noteq> None"
  shows "\<exists>ds. device_domains hass device_id = Inr ds \<and> distinct ds \<and>
     set ds = {domain ce | eid ce. eid \<in> set (config_entries dev) \<and> async_get_entry hass eid = Some ce}
            \<union> {takeWhile (\<lambda>c. c \<noteq> CHR ''.'') (entity_id e) | e.
                  e \<in> set (async_entries_for_device hass device_id)}"
proof -
  from add_config_entry_domains_ok [OF assms(2), of "[]"] obtain ds' where
    ds': "add_config_entry_domains hass (config_entries dev) [] = Inr ds'"
    "set ds' = {domain ce | eid ce. eid \<in> set (config_entries dev) \<and> async_get_entry hass eid = Some ce}"
    "distinct ds'" by auto
  let ?ds = "add_entity_domains (async_entries_for_device hass device_id) ds'"
  have "device_domains hass device_id = Inr ?ds"
    by (simp add: device_domains_def assms(1) ds'(1))
  moreover have "distinct ?ds" by (rule distinct_add_entity_domains [OF ds'(3)])
  moreover have "set ?ds = set ds' \<union> {takeWhile (\<lambda>c. c \<noteq> CHR ''.'') (entity_id e) | e.
                  e \<in> set (async_entries_for_device hass device_id)}"
    by (auto simp: set_add_entity_domains hd_split_entity_id)
  ultimately show ?thesis using ds'(2) by simp
qed

lemma add_config_entry_domains_cong:
  assumes "\<And>eid. async_get_entry hass' eid = async_get_entry hass eid"
  shows "add_config_entry_domains hass' eids ds = add_config_entry_domains hass eids ds"
  by (induction eids arbitrary: ds) (simp_all add: assms split: option.splits)

lemma device_domains_cong:
  assumes "device_registry hass' = device_registry hass"
    and "\<And>eid. async_get_entry hass' eid = async_get_entry hass eid"
    and "async_entries_for_device hass' = async_entries_for_device hass"
  shows "device_domains hass' device_id = device_domains hass device_id"
  by (simp only: device_domains_def assms(1,3) add_config_entry_domains_cong [OF assms(2)])

subsection \<open>Ranks and orders\<close>

text \<open>
  Ranking the elements is no restriction on the order of enumeration, nor is a delay for
  each fetch one on the order of completion: every arrangement of a set without duplicates
  is its sorting by some rank.
\<close>

lemma position_nth:
  assumes "distinct ys" and "i < length ys"
  shows "position ys (ys ! i) = i"
proof -
  have "takeWhile (\<lambda>y. y \<noteq> ys ! i) ys = take i ys"
  proof (rule takeWhile_eq_take_P_nth)
    fix j assume "j < i" "j < length ys"
    with assms show "ys ! j \<noteq> ys ! i" by (simp add: nth_eq_iff_index_eq)
  next
    show "\<not> ys ! i \<noteq> ys ! i" by simp
  qed
  with assms(2) show ?thesis by (simp add: position_def)
qed

lemma position_eq:
  assumes "distinct ys" and "k \<in> set ys" and "x \<in> set ys"
  shows "position ys k = position ys x \<longleftrightarrow> k = x"
proof -
  from assms obtain i j where "i < length ys" "ys ! i = k" "j < length ys" "ys ! j = x"
    by (metis in_set_conv_nth)
  with assms(1) show ?thesis by (metis position_nth)
qed

lemma sorted_position:
  assumes "distinct ys"
  shows "sorted (map (position ys) ys)"
proof -
  have "map (position ys) ys = [0..<length ys]"
    by (rule nth_equalityI) (simp_all add: position_nth [OF assms])
  then show ?thesis by simp
qed

lemma every_order_has_a_rank:
  assumes "distinct ys" and "mset ys = mset xs"
  shows "sort_key (position ys) xs = ys"
proof (rule properties_for_sort_key [OF assms(2)])
  show "sorted (map (position ys) ys)" by (rule sorted_position [OF assms(1)])
next
  fix k assume k: "k \<in> set ys"
  have s: "set xs = set ys" using assms(2) by (metis set_mset_mset)
  have "filter (\<lambda>x. position ys k = position ys x) ys = filter (\<lambda>x. k = x) ys"
    by (rule filter_cong) (simp_all add: position_eq [OF assms(1) k])
  moreover have "filter (\<lambda>x. position ys k = position ys x) xs = filter (\<lambda>x. k = x) xs"
    by (rule filter_cong) (simp_all add: position_eq [OF assms(1) k] s)
  moreover have "filter (\<lambda>x. k = x) ys = filter (\<lambda>x. k = x) xs"
    using assms(2) by (metis replicate_count_mset_eq_filter_eq)
  ultimately show "filter (\<lambda>x. position ys k = position ys x) ys =
      filter (\<lambda>x. position ys k = position ys x) xs" by simp
qed

subsection \<open>Merging\<close>

lemma extend_all_concat:
  "extend_all rs acc = acc @ concat (map (\<lambda>r. case r of None \<Rightarrow> [] | Some xs \<Rightarrow> xs) rs)"
  unfolding extend_all_def by (induction rs arbitrary: acc) (auto split: option.splits)

lemma concat_non_absent:
  "concat (map the (filter (\<lambda>r. r \<noteq> None) rs)) = concat (map (\<lambda>r. case r of None \<Rightarrow> [] | Some xs \<Rightarrow> xs) rs)"
  by (induction rs) (auto split: option.splits)

lemma concat_skip:
  "concat (map (\<lambda>x. contribution ((res(d := None)) x)) xs) =
   concat (map (\<lambda>x. contribution (res x)) (filter (\<lambda>x. x \<noteq> d) xs))"
  by (induction xs) (simp_all add: contribution_def)

lemma mset_concat_map_sort:
  "mset (concat (map f (sort_key k xs))) = mset (concat (map f xs))"
proof -
  have "\<And>ys. mset (concat (map f ys)) = sum_mset (image_mset (\<lambda>x. mset (f x)) (mset ys))"
    by (simp add: mset_concat comp_def flip: sum_mset_sum_list)
  then show ?thesis by simp
qed

lemma merged_simps:
  "merged (Inl err) = None" "merged (Inr xs) = Some xs"
  by (simp_all add: merged_def)

subsection \<open>Gathering\<close>

text \<open>
  When every awaitable returns, \<open>gather\<close> hands back the results in the order of the
  awaitables; when one raises, it raises an exception of one of them, the one that finishes
  strictly first if there is such a one; and it commutes with a map over the results.
\<close>

lemma gather_loop_fail:
  "\<exists>c \<in> set cs. isl (snd (snd c)) \<Longrightarrow>
   \<exists>err. gather_loop cs res = Inl err \<and> (\<exists>c \<in> set cs. snd (snd c) = Inl err)"
  by (induction cs res rule: gather_loop.induct) auto

lemma gather_loop_ok:
  "\<forall>c \<in> set cs. \<not> isl (snd (snd c)) \<Longrightarrow> distinct (map (\<lambda>c. fst (snd c)) cs) \<Longrightarrow>
   \<exists>res'. gather_loop cs res = Inr res' \<and> length res' = length res \<and>
      (\<forall>j < length res. res' ! j =
         (case map_of (map snd cs) j of None \<Rightarrow> res ! j
          | Some out \<Rightarrow> (case out of Inl _ \<Rightarrow> res ! j | Inr r \<Rightarrow> Some r)))"
proof (induction cs res rule: gather_loop.induct)
  case (1 results)
  then show ?case by simp
next
  case (2 t i err completions results)
  then show ?case by simp
next
  case (3 t i r completions results)
  from "3.prems" have a: "\<forall>c \<in> set completions. \<not> isl (snd (snd c))" by simp
  from "3.prems" have d: "distinct (map (\<lambda>c. fst (snd c)) completions)" by simp
  from "3.prems" have ni: "i \<notin> fst ` set (map snd completions)" by (auto simp: image_iff)
  from "3.IH" [OF a d] obtain res' where
    r: "gather_loop completions (results[i := Some r]) = Inr res'"
       "length res' = length results"
       "\<forall>j < length results. res' ! j =
         (case map_of (map snd completions) j of None \<Rightarrow> results[i := Some r] ! j
          | Some out \<Rightarrow> (case out of Inl _ \<Rightarrow> results[i := Some r] ! j | Inr r \<Rightarrow> Some r))"
    by auto
  from ni have none: "map_of (map snd completions) i = None"
    by (simp add: map_of_eq_None_iff)
  show ?case using r none by (auto split: option.splits sum.splits)
qed

lemma gather_unfold:
  "gather finish outs =
     (case gather_loop (sort_key fst (zip finish (zip [0..<length outs] outs)))
             (replicate (length outs) None) of
        Inl err \<Rightarrow> Inl err | Inr results \<Rightarrow> Inr (map the results))"
  by (simp add: gather_def Let_def)

lemma gather_ok:
  assumes len: "length finish = length rs"
  shows "gather finish (map Inr rs) = Inr rs"
proof -
  define n where "n = length rs"
  define outs :: "(exn + 'a) list" where "outs = map Inr rs"
  define zs where "zs = zip finish (zip [0..<n] outs)"
  define cs where "cs = sort_key fst zs"
  have len_outs: "length outs = n" by (simp add: outs_def n_def)
  have snd_zs: "map snd zs = zip [0..<n] outs"
    unfolding zs_def using len len_outs by (simp add: n_def)
  have set_cs: "set cs = set zs" unfolding cs_def by simp
  have mset_cs: "mset cs = mset zs" unfolding cs_def by simp
  have snd_cs: "set (map snd cs) = set (zip [0..<n] outs)"
    using set_cs snd_zs by (metis set_map)
  have ok: "\<forall>c \<in> set cs. \<not> isl (snd (snd c))"
  proof
    fix c assume "c \<in> set cs"
    then have "snd c \<in> set (zip [0..<n] outs)" using snd_cs by force
    then have "(fst (snd c), snd (snd c)) \<in> set (zip [0..<n] outs)" by simp
    then have "snd (snd c) \<in> set outs" by (rule set_zip_rightD)
    then show "\<not> isl (snd (snd c))" by (auto simp: outs_def)
  qed
  have "mset (map (\<lambda>c. fst (snd c)) cs) = mset (map (\<lambda>c. fst (snd c)) zs)"
    by (simp add: mset_cs)
  also have "map (\<lambda>c. fst (snd c)) zs = map fst (map snd zs)" by simp
  also have "\<dots> = [0..<n]" unfolding snd_zs using len_outs by simp
  finally have m: "mset (map (\<lambda>c. fst (snd c)) cs) = mset [0..<n]" .
  have dist: "distinct (map (\<lambda>c. fst (snd c)) cs)"
    using mset_eq_imp_distinct_iff [OF m] by simp
  then have dist': "distinct (map fst (map snd cs))" by (simp add: comp_def)
  from gather_loop_ok [OF ok dist, of "replicate n None"] obtain res' where
    r: "gather_loop cs (replicate n None) = Inr res'" "length res' = n"
       "\<forall>j < n. res' ! j =
         (case map_of (map snd cs) j of None \<Rightarrow> replicate n None ! j
          | Some out \<Rightarrow> (case out of Inl _ \<Rightarrow> replicate n None ! j | Inr r \<Rightarrow> Some r))"
    by auto
  have "res' = map Some rs"
  proof (rule nth_equalityI)
    show "length res' = length (map Some rs)" using r(2) by (simp add: n_def)
  next
    fix j assume "j < length res'"
    then have j: "j < n" using r(2) by simp
    then have "(j, Inr (rs ! j)) \<in> set (zip [0..<n] outs)"
      by (auto simp: set_zip outs_def n_def intro!: exI [of _ j])
    then have "(j, Inr (rs ! j)) \<in> set (map snd cs)" using snd_cs by simp
    then have "map_of (map snd cs) j = Some (Inr (rs ! j))"
      using dist' by simp
    with r(3) j show "res' ! j = map Some rs ! j" by (simp add: n_def)
  qed
  then have "map the res' = rs" by (simp add: comp_def)
  with r(1) show ?thesis
    unfolding gather_unfold cs_def zs_def outs_def n_def by simp
qed

lemma gather_fail:
  assumes len: "length finish = length outs" and bad: "\<exists>out \<in> set outs. isl out"
  shows "\<exists>err. gather finish outs = Inl err \<and> Inl err \<in> set outs"
proof -
  define n where "n = length outs"
  define zs where "zs = zip finish (zip [0..<n] outs)"
  define cs where "cs = sort_key fst zs"
  have set_cs: "set cs = set zs" unfolding cs_def by simp
  from bad obtain k where k: "k < n" "isl (outs ! k)"
    by (auto simp: in_set_conv_nth n_def)
  then have "(finish ! k, k, outs ! k) \<in> set zs"
    unfolding zs_def using len by (auto simp: set_zip n_def)
  with k set_cs have "\<exists>c \<in> set cs. isl (snd (snd c))" by force
  from gather_loop_fail [OF this, of "replicate n None"] obtain err c where
    e: "gather_loop cs (replicate n None) = Inl err" "c \<in> set cs" "snd (snd c) = Inl err"
    by blast
  from e(2) set_cs have "(fst c, fst (snd c), snd (snd c)) \<in> set zs" by simp
  then have "(fst (snd c), snd (snd c)) \<in> set (zip [0..<n] outs)"
    unfolding zs_def by (rule set_zip_rightD)
  then have "snd (snd c) \<in> set outs" by (rule set_zip_rightD)
  with e(1,3) show ?thesis
    unfolding gather_unfold cs_def zs_def n_def by auto
qed

lemma insort_key_fst_map:
  assumes "\<And>z. fst (h z) = fst z"
  shows "insort_key fst (h x) (map h ys) = map h (insort_key fst x ys)"
  by (induction ys) (simp_all add: assms)

lemma sort_key_fst_map:
  assumes "\<And>z. fst (h z) = fst z"
  shows "sort_key fst (map h zs) = map h (sort_key fst zs)"
  by (induction zs) (simp_all add: sort_key_def insort_key_fst_map [OF assms])

lemma gather_loop_map:
  "gather_loop (map (\<lambda>c. (fst c, fst (snd c), map_sum id g (snd (snd c)))) cs)
       (map (map_option g) res) =
   map_sum id (map (map_option g)) (gather_loop cs res)"
  by (induction cs res rule: gather_loop.induct) (simp_all add: map_update)

lemma gather_map:
  assumes len: "length finish = length outs"
  shows "gather finish (map (map_sum id g) outs) = map_sum id (map g) (gather finish outs)"
proof (cases "\<exists>out \<in> set outs. isl out")
  case False
  then have "map (\<lambda>out. Inr (projr out)) outs = outs"
    by (intro map_idI) simp
  then have "outs = map Inr (map projr outs)" by (simp add: comp_def)
  then obtain rs where rs: "outs = map Inr rs" ..
  have m: "map (map_sum id g) outs = map Inr (map g rs)" by (simp add: rs)
  from len have "gather finish outs = Inr rs" unfolding rs by (simp add: gather_ok)
  moreover from len have "gather finish (map Inr (map g rs)) = Inr (map g rs)"
    by (intro gather_ok) (simp add: rs)
  ultimately show ?thesis unfolding m by simp
next
  case True
  from gather_fail [OF len True] obtain err where err: "gather finish outs = Inl err" by blast
  define h :: "nat \<times> nat \<times> (exn + 'a) \<Rightarrow> nat \<times> nat \<times> (exn + 'b)"
    where "h = (\<lambda>c. (fst c, fst (snd c), map_sum id g (snd (snd c))))"
  have z: "zip finish (zip [0..<length outs] (map (map_sum id g) outs)) =
        map h (zip finish (zip [0..<length outs] outs))"
    by (simp add: zip_map2 h_def case_prod_unfold)
  have s: "sort_key fst (zip finish (zip [0..<length outs] (map (map_sum id g) outs))) =
        map h (sort_key fst (zip finish (zip [0..<length outs] outs)))"
    unfolding z by (rule sort_key_fst_map) (simp add: h_def)
  have l: "gather_loop (map h (sort_key fst (zip finish (zip [0..<length outs] outs))))
             (map (map_option g) (replicate (length outs) None)) =
        map_sum id (map (map_option g))
          (gather_loop (sort_key fst (zip finish (zip [0..<length outs] outs)))
             (replicate (length outs) None))"
    unfolding h_def by (rule gather_loop_map)
  from err have "isl (gather_loop (sort_key fst (zip finish (zip [0..<length outs] outs)))
             (replicate (length outs) None))"
    unfolding gather_unfold by (auto split: sum.splits)
  then show ?thesis
    using l unfolding gather_unfold [of finish "map (map_sum id g) outs"] gather_unfold [of finish outs]
    by (auto simp: s split: sum.splits)
qed

lemma gather_loop_first:
  "gather_loop cs res = Inl err \<Longrightarrow>
   \<exists>pre t i post. cs = pre @ (t, i, Inl err) # post \<and> (\<forall>c \<in> set pre. \<not> isl (snd (snd c)))"
proof (induction cs res rule: gather_loop.induct)
  case (1 results)
  then show ?case by simp
next
  case (2 t i e completions results)
  then have "(t, i, Inl e) # completions = [] @ (t, i, Inl err) # completions" by simp
  then show ?case by (metis empty_iff list.set(1))
next
  case (3 t i r completions results)
  then obtain pre t' i' post where
    p: "completions = pre @ (t', i', Inl err) # post" "\<forall>c \<in> set pre. \<not> isl (snd (snd c))"
    by auto
  have "(t, i, Inr r) # completions = ((t, i, Inr r) # pre) @ (t', i', Inl err) # post"
    by (simp add: p(1))
  moreover have "\<forall>c \<in> set ((t, i, Inr r) # pre). \<not> isl (snd (snd c))" using p(2) by simp
  ultimately show ?case by blast
qed

lemma gather_first:
  assumes len: "length finish = length outs"
    and k: "k < length outs" "outs ! k = Inl err"
    and first: "\<forall>j < length outs. j \<noteq> k \<and> isl (outs ! j) \<longrightarrow> finish ! k < finish ! j"
  shows "gather finish outs = Inl err"
proof -
  define n where "n = length outs"
  define zs where "zs = zip finish (zip [0..<n] outs)"
  define cs where "cs = sort_key fst zs"
  have set_cs: "set cs = set zs" unfolding cs_def by simp
  have srt: "sorted (map fst cs)" unfolding cs_def by (rule sorted_sort_key)
  have mem: "(finish ! k, k, Inl err) \<in> set cs"
    unfolding set_cs zs_def using len k by (auto simp: set_zip n_def intro!: exI [of _ k])
  from k have "\<exists>out \<in> set outs. isl out" by (metis nth_mem sum.disc(1))
  from gather_fail [OF len this] obtain err' where g: "gather finish outs = Inl err'" by blast
  then have "gather_loop cs (replicate n None) = Inl err'"
    unfolding gather_unfold cs_def zs_def n_def by (auto split: sum.splits)
  from gather_loop_first [OF this] obtain pre t i post where
    dec: "cs = pre @ (t, i, Inl err') # post" "\<forall>c \<in> set pre. \<not> isl (snd (snd c))"
    by blast
  have "(t, i, Inl err') \<in> set zs" using dec(1) set_cs by auto
  then have ti: "i < n" "t = finish ! i" "outs ! i = Inl err'"
    unfolding zs_def using len by (auto simp: set_zip n_def)
  have "err' = err"
  proof (cases "i = k")
    case True
    with ti(3) k(2) show ?thesis by simp
  next
    case False
    with first ti have lt: "finish ! k < t" by (simp add: n_def)
    from mem dec(2) have "(finish ! k, k, Inl err) \<notin> set pre" by force
    with mem False have "(finish ! k, k, Inl err) \<in> set post" unfolding dec(1) by auto
    with srt have "t \<le> finish ! k" unfolding dec(1) by (force simp: sorted_append)
    with lt show ?thesis by simp
  qed
  with g show ?thesis by simp
qed

subsection \<open>Fetching from one domain\<close>

lemma listing_call_fetch:
  "listing_call hass dmn fname device_id = Some out \<Longrightarrow>
   fst (async_get_device_automations_from_domain hass dmn fname device_id) = out"
  by (auto simp: listing_call_def async_get_device_automations_from_domain_def
           split: sum.splits option.splits)

lemma fetch_absent:
  assumes "async_get_integration hass d = Inl (IntegrationNotFound m) \<or>
     (\<exists>integration. async_get_integration hass d = Inr integration \<and>
        (get_platform integration ''device_automation'' = Inl ImportError \<or>
         (\<exists>platform. get_platform integration ''device_automation'' = Inr platform \<and>
            platform fname = None)))"
  shows "fst (async_get_device_automations_from_domain hass d fname device_id) = Inr None"
  using assms by (auto simp: async_get_device_automations_from_domain_def)

lemma fetch_other_domain:
  "d' \<noteq> d \<Longrightarrow>
   async_get_device_automations_from_domain
     (hass\<lparr>async_get_integration := (async_get_integration hass)(d := x)\<rparr>) d' fname device_id =
   async_get_device_automations_from_domain hass d' fname device_id"
  by (simp add: async_get_device_automations_from_domain_def)

lemma fetch_lists_nothing:
  "fst (async_get_device_automations_from_domain
     (hass\<lparr>async_get_integration := (async_get_integration hass)(d := Inr (lists_nothing fname))\<rparr>)
     d fname device_id) = Inr (Some [])"
  by (simp add: async_get_device_automations_from_domain_def lists_nothing_def)

lemma fetch_not_found:
  "fst (async_get_device_automations_from_domain
     (hass\<lparr>async_get_integration := (async_get_integration hass)(d := Inl (IntegrationNotFound m))\<rparr>)
     d fname device_id) = Inr None"
  by (simp add: async_get_device_automations_from_domain_def)

subsection \<open>The aggregation\<close>

lemma aggregate_unknown:
  "device_domains hass device_id = Inl err \<Longrightarrow>
   async_get_device_automations hass rt fname device_id = (Inl err, [])"
  by (simp add: async_get_device_automations_def)

lemma aggregate_calls:
  "device_domains hass device_id = Inr ds \<Longrightarrow>
   resolved_domains (snd (async_get_device_automations hass rt fname device_id)) =
     sort_key (set_rank rt) ds"
  by (simp add: async_get_device_automations_def Let_def comp_def fetches_resolved)

lemma aggregate_result:
  assumes "device_domains hass device_id = Inr ds"
  shows "fst (async_get_device_automations hass rt fname device_id) =
     map_sum id concat
       (gather (map (delay rt) (sort_key (set_rank rt) ds))
          (map (\<lambda>dmn. map_sum id contribution
                  (fst (async_get_device_automations_from_domain hass dmn fname device_id)))
               (sort_key (set_rank rt) ds)))"
proof -
  let ?en = "sort_key (set_rank rt) ds"
  let ?outs = "map (\<lambda>dmn. fst (async_get_device_automations_from_domain hass dmn fname device_id)) ?en"
  have e: "\<And>rs. extend_all rs [] = concat (map contribution rs)"
    by (simp add: extend_all_concat contribution_def [abs_def])
  have "fst (async_get_device_automations hass rt fname device_id) =
      map_sum id concat (map_sum id (map contribution) (gather (map (delay rt) ?en) ?outs))"
    by (simp add: async_get_device_automations_def assms Let_def comp_def e split: sum.splits)
  also have "map_sum id (map contribution) (gather (map (delay rt) ?en) ?outs) =
      gather (map (delay rt) ?en) (map (map_sum id contribution) ?outs)"
    by (rule gather_map [symmetric]) simp
  finally show ?thesis by (simp add: comp_def id_def)
qed

lemma aggregate_ok:
  assumes dd: "device_domains hass device_id = Inr ds"
    and ok: "\<forall>d \<in> set ds. fst (async_get_device_automations_from_domain hass d fname device_id) = Inr (res d)"
  shows "fst (async_get_device_automations hass rt fname device_id) =
     Inr (concat (map (\<lambda>d. contribution (res d)) (sort_key (set_rank rt) ds)))"
proof -
  let ?en = "sort_key (set_rank rt) ds"
  have eq: "map (\<lambda>dmn. map_sum id contribution
                  (fst (async_get_device_automations_from_domain hass dmn fname device_id))) ?en
      = map Inr (map (\<lambda>d. contribution (res d)) ?en)"
    using ok by simp
  show ?thesis
    unfolding aggregate_result [OF dd] eq by (subst gather_ok) simp_all
qed

lemma aggregate_fail:
  assumes dd: "device_domains hass device_id = Inr ds"
    and bad: "\<exists>d \<in> set ds. isl (fst (async_get_device_automations_from_domain hass d fname device_id))"
  shows "\<exists>err. fst (async_get_device_automations hass rt fname device_id) = Inl err \<and>
     (\<exists>d \<in> set ds. fst (async_get_device_automations_from_domain hass d fname device_id) = Inl err)"
proof -
  let ?en = "sort_key (set_rank rt) ds"
  let ?outs = "map (\<lambda>dmn. map_sum id contribution
                  (fst (async_get_device_automations_from_domain hass dmn fname device_id))) ?en"
  from bad have "\<exists>out \<in> set ?outs. isl out" by (auto simp: isl_map_sum)
  from gather_fail [OF _ this, of "map (delay rt) ?en"] obtain err where
    err: "gather (map (delay rt) ?en) ?outs = Inl err" "Inl err \<in> set ?outs" by auto
  from err(2) obtain d where "d \<in> set ds"
    "map_sum id contribution (fst (async_get_device_automations_from_domain hass d fname device_id)) = Inl err"
    by auto
  then have "\<exists>d \<in> set ds. fst (async_get_device_automations_from_domain hass d fname device_id) = Inl err"
    by (cases "fst (async_get_device_automations_from_domain hass d fname device_id)") auto
  with err(1) show ?thesis unfolding aggregate_result [OF dd] by simp
qed

lemma aggregate_first:
  assumes dd: "device_domains hass device_id = Inr ds" and d: "d \<in> set ds"
    and raises: "fst (async_get_device_automations_from_domain hass d fname device_id) = Inl err"
    and first: "\<forall>d' \<in> set ds. d' \<noteq> d \<and>
        isl (fst (async_get_device_automations_from_domain hass d' fname device_id)) \<longrightarrow>
        delay rt d < delay rt d'"
  shows "fst (async_get_device_automations hass rt fname device_id) = Inl err"
proof -
  let ?en = "sort_key (set_rank rt) ds"
  let ?outs = "map (\<lambda>dmn. map_sum id contribution
                  (fst (async_get_device_automations_from_domain hass dmn fname device_id))) ?en"
  have dist: "distinct ?en" using device_domains_distinct [OF dd] by simp
  from d obtain k where k: "k < length ?en" "?en ! k = d"
    by (metis in_set_conv_nth set_sort)
  have "gather (map (delay rt) ?en) ?outs = Inl err"
  proof (rule gather_first [where k = k])
    show "length (map (delay rt) ?en) = length ?outs" by simp
    show "k < length ?outs" using k by simp
    show "?outs ! k = Inl err" using k raises by simp
    show "\<forall>j < length ?outs. j \<noteq> k \<and> isl (?outs ! j) \<longrightarrow>
        map (delay rt) ?en ! k < map (delay rt) ?en ! j"
    proof (intro allI impI)
      fix j assume j: "j < length ?outs" "j \<noteq> k \<and> isl (?outs ! j)"
      then have jl: "j < length ?en" by simp
      with j k dist have ne: "?en ! j \<noteq> d" by (metis nth_eq_iff_index_eq)
      have "?en ! j \<in> set ds" using jl by (metis nth_mem set_sort)
      moreover have "isl (fst (async_get_device_automations_from_domain hass (?en ! j) fname device_id))"
        using j jl by (simp add: isl_map_sum)
      ultimately have "delay rt d < delay rt (?en ! j)" using first ne by blast
      then show "map (delay rt) ?en ! k < map (delay rt) ?en ! j" using k jl by simp
    qed
  qed
  then show ?thesis unfolding aggregate_result [OF dd] by simp
qed

lemma aggregate_merged:
  assumes dd: "device_domains hass device_id = Inr ds"
  shows "merged (fst (async_get_device_automations hass rt fname device_id)) =
     (if \<forall>d \<in> set ds. \<not> isl (fst (async_get_device_automations_from_domain hass d fname device_id))
      then Some (concat (map (\<lambda>d. contribution (projr
              (fst (async_get_device_automations_from_domain hass d fname device_id))))
              (sort_key (set_rank rt) ds)))
      else None)"
proof (cases "\<forall>d \<in> set ds. \<not> isl (fst (async_get_device_automations_from_domain hass d fname device_id))")
  case True
  then have "\<forall>d \<in> set ds. fst (async_get_device_automations_from_domain hass d fname device_id) =
      Inr (projr (fst (async_get_device_automations_from_domain hass d fname device_id)))"
    by simp
  from aggregate_ok [OF dd this] True show ?thesis by (simp add: merged_def)
next
  case False
  then have "\<exists>d \<in> set ds. isl (fst (async_get_device_automations_from_domain hass d fname device_id))"
    by simp
  from aggregate_fail [OF dd this, of rt] False show ?thesis by (auto simp: merged_def)
qed

lemma aggregate_merged_unknown:
  "device_domains hass device_id = Inl err \<Longrightarrow>
   merged (fst (async_get_device_automations hass rt fname device_id)) = None"
  by (simp add: aggregate_unknown merged_def)

lemma aggregate_no_raise:
  assumes "device_domains hass device_id = Inr ds"
    and "\<forall>d \<in> set ds. \<not> isl (fst (async_get_device_automations_from_domain hass d fname device_id))"
  shows "\<not> isl (fst (async_get_device_automations hass rt fname device_id))"
  using aggregate_merged [OF assms(1), of rt fname] assms(2)
  by (auto simp: merged_def split: sum.splits)

lemma aggregate_cong:
  assumes "device_domains hass' device_id = device_domains hass device_id"
    and "\<And>d. map_sum id contribution
            (fst (async_get_device_automations_from_domain hass' d fname device_id)) =
          map_sum id contribution
            (fst (async_get_device_automations_from_domain hass d fname device_id))"
  shows "fst (async_get_device_automations hass' rt fname device_id) =
         fst (async_get_device_automations hass rt fname device_id)"
proof (cases "device_domains hass device_id")
  case (Inl err)
  then show ?thesis using assms(1) by (simp add: aggregate_unknown)
next
  case (Inr ds)
  then have "device_domains hass' device_id = Inr ds" using assms(1) by simp
  from aggregate_result [OF this] aggregate_result [OF Inr] show ?thesis
    by (simp add: assms(2))
qed

lemma replace_integration:
  assumes "map_sum id contribution (fst (async_get_device_automations_from_domain
             (hass\<lparr>async_get_integration := (async_get_integration hass)(d := x)\<rparr>)
             d fname device_id)) =
           map_sum id contribution (fst (async_get_device_automations_from_domain
             hass d fname device_id))"
  shows "fst (async_get_device_automations
           (hass\<lparr>async_get_integration := (async_get_integration hass)(d := x)\<rparr>)
           rt fname device_id) =
         fst (async_get_device_automations hass rt fname device_id)"
proof (rule aggregate_cong)
  show "device_domains (hass\<lparr>async_get_integration := (async_get_integration hass)(d := x)\<rparr>)
          device_id = device_domains hass device_id"
    by (rule device_domains_cong) simp_all
next
  fix d'
  show "map_sum id contribution (fst (async_get_device_automations_from_domain
          (hass\<lparr>async_get_integration := (async_get_integration hass)(d := x)\<rparr>)
          d' fname device_id)) =
        map_sum id contribution (fst (async_get_device_automations_from_domain
          hass d' fname device_id))"
    using assms by (cases "d' = d") (simp_all add: fetch_other_domain)
qed

lemma fetch_sequentially_merged:
  "merged (fetch_sequentially hass ds fname device_id) =
     (if \<forall>d \<in> set ds. \<not> isl (fst (async_get_device_automations_from_domain hass d fname device_id))
      then Some (concat (map (\<lambda>d. contribution (projr
              (fst (async_get_device_automations_from_domain hass d fname device_id)))) ds))
      else None)"
  by (induction ds)
     (auto simp: merged_def contribution_def split: sum.splits option.splits if_splits)

subsection \<open>The handlers\<close>

text \<open>What the schemas reject: a key of their own that is missing, a value that its
  validator rejects, and a key that is not theirs.\<close>

lemma validate_fields_missing_key:
  "(key, va) \<in> set schema \<Longrightarrow> map_of msg key = None \<Longrightarrow> validate_fields schema msg = None"
  by (induction schema) (auto split: option.splits)

lemma validate_fields_invalid_value:
  "(key, va) \<in> set schema \<Longrightarrow> map_of msg key = Some v \<Longrightarrow> validates va v = None \<Longrightarrow>
   validate_fields schema msg = None"
  by (induction schema) (auto split: option.splits)

lemma validate_missing_key:
  "(key, va) \<in> set schema \<Longrightarrow> map_of msg key = None \<Longrightarrow> validate schema msg = None"
  by (simp add: validate_def validate_fields_missing_key)

lemma validate_invalid_value:
  "(key, va) \<in> set schema \<Longrightarrow> map_of msg key = Some v \<Longrightarrow> validates va v = None \<Longrightarrow>
   validate schema msg = None"
  by (simp add: validate_def validate_fields_invalid_value)

lemma validate_extra_key:
  "(key, v) \<in> set msg \<Longrightarrow> key \<notin> fst ` set schema \<Longrightarrow> validate schema msg = None"
  by (auto simp: validate_def list_all_iff)

lemma websocket_command_rejects:
  "validate (command_schema schema) msg = None \<Longrightarrow>
   websocket_command schema handler msg = (Rejected, [])"
  by (simp add: websocket_command_def)

text \<open>What they accept: the three keys and no other, an id that coerces to an integer that
  is not negative, the type of the command, and a string for the device.\<close>

lemma validate_command:
  assumes "fst ` set msg \<subseteq> {''id'', ''type'', ''device_id''}"
    and "map_of msg ''id'' = Some v" and "coerce_int v = Some n" and "0 \<le> n"
    and "map_of msg ''type'' = Some (JStr cmd)"
    and "map_of msg ''device_id'' = Some (JStr device_id)"
  shows "validate (command_schema [(''type'', Literal cmd), (''device_id'', IsStr)]) msg =
         Some (request (JInt n) cmd device_id)"
proof -
  have "list_all (\<lambda>(key, v). key \<in> set (map fst
          (command_schema [(''type'', Literal cmd), (''device_id'', IsStr)]))) msg"
    using assms(1) by (auto simp: list_all_iff command_schema_def)
  then show ?thesis
    using assms(2-6) by (simp add: validate_def command_schema_def request_def)
qed

lemma request_fields:
  "map_of (request rid cmd device_id) ''type'' = Some (JStr cmd)"
  "map_of (request rid cmd device_id) ''device_id'' = Some (JStr device_id)"
  "map_of (request rid cmd device_id) ''id'' = Some rid"
  by (simp_all add: request_def)

lemma request_keys:
  "fst ` set (request rid cmd device_id) \<subseteq> {''id'', ''type'', ''device_id''}"
  by (simp add: request_def)

lemma handle_list_request:
  "handle_list hass rt fname (request rid cmd device_id) =
   (case fst (async_get_device_automations hass rt fname device_id) of
      Inl err \<Rightarrow> ErrorResponse (Some rid) err
    | Inr result \<Rightarrow> Result (Some rid) result,
    snd (async_get_device_automations hass rt fname device_id))"
  by (simp add: handle_list_def request_fields async_response_def split: sum.splits)

lemma handler_valid:
  assumes "fst ` set msg \<subseteq> {''id'', ''type'', ''device_id''}"
    and "map_of msg ''id'' = Some v" and "coerce_int v = Some n" and "0 \<le> n"
    and "map_of msg ''type'' = Some (JStr cmd)"
    and "map_of msg ''device_id'' = Some (JStr device_id)"
  shows "schema_accepts (command_schema [(''type'', Literal cmd), (''device_id'', IsStr)]) msg"
    and "websocket_command [(''type'', Literal cmd), (''device_id'', IsStr)]
           (handle_list hass rt fname) msg =
         async_response (request (JInt n) cmd device_id)
           (async_get_device_automations hass rt fname device_id)"
  using validate_command [OF assms]
  by (simp_all add: schema_accepts_def websocket_command_def handle_list_def request_fields)

lemma handle_request:
  assumes "coerce_int rid = Some n" and "0 \<le> n"
  shows "websocket_command [(''type'', Literal cmd), (''device_id'', IsStr)]
           (handle_list hass rt fname) (request rid cmd device_id) =
   (case fst (async_get_device_automations hass rt fname device_id) of
      Inl err \<Rightarrow> ErrorResponse (Some (JInt n)) err
    | Inr result \<Rightarrow> Result (Some (JInt n)) result,
    snd (async_get_device_automations hass rt fname device_id))"
proof -
  have "validate (command_schema [(''type'', Literal cmd), (''device_id'', IsStr)])
          (request rid cmd device_id) = Some (request (JInt n) cmd device_id)"
    by (rule validate_command [OF request_keys request_fields(3) assms request_fields(1,2)])
  then show ?thesis by (simp add: websocket_command_def handle_list_request)
qed

lemmas handlers_def =
  websocket_device_automation_list_actions_def list_actions_schema_def
  websocket_device_automation_list_conditions_def list_conditions_schema_def
  websocket_device_automation_list_triggers_def list_triggers_schema_def

text \<open>The three handlers answer a message without an id, with a device id that is not a
  string, or with a key that no command has, without running.\<close>

lemma handlers_reject_malformed:
  assumes "map_of msg ''id'' = None \<or>
           (\<exists>v. map_of msg ''device_id'' = Some v \<and> (\<forall>s. v \<noteq> JStr s)) \<or>
           (\<exists>key v. (key, v) \<in> set msg \<and> key \<notin> {''id'', ''type'', ''device_id''})"
  shows "websocket_device_automation_list_actions hass rt msg = (Rejected, []) \<and>
         websocket_device_automation_list_conditions hass rt msg = (Rejected, []) \<and>
         websocket_device_automation_list_triggers hass rt msg = (Rejected, [])"
proof -
  have "validate (command_schema [(''type'', Literal cmd), (''device_id'', IsStr)]) msg = None"
    for cmd
    using assms
  proof (elim disjE exE conjE)
    assume "map_of msg ''id'' = None"
    then show ?thesis
      by (intro validate_missing_key [where key = "''id''" and va = PositiveInt])
         (simp_all add: command_schema_def)
  next
    fix v assume v: "map_of msg ''device_id'' = Some v" "\<forall>s. v \<noteq> JStr s"
    then have "validates IsStr v = None" by (cases v) simp_all
    with v(1) show ?thesis
      by (intro validate_invalid_value [where key = "''device_id''" and va = IsStr])
         (simp_all add: command_schema_def)
  next
    fix key v assume "(key, v) \<in> set msg" "key \<notin> {''id'', ''type'', ''device_id''}"
    then show ?thesis
      by (intro validate_extra_key [where key = key and v = v])
         (auto simp: command_schema_def)
  qed
  then show ?thesis
    unfolding handlers_def by (simp add: websocket_command_rejects)
qed

section \<open>The claims\<close>

text \<open>
  Claim C1. For a device id that the device registry does not know, each of the three
  listing handlers answers the request (any request with an id that the protocol accepts)
  with an error response carrying the failure of the device lookup (DeviceNotFound), and
  the log of calls is empty: no integration is resolved and no plugin listing is called.
  The aggregation itself fails the same way for every listing name.
\<close>

theorem unknown_device_fails_without_plugin_calls:
  assumes "device_registry hass device_id = None"
    and "coerce_int rid = Some n" and "0 \<le> n"
  shows "websocket_device_automation_list_actions hass rt
           (request rid ''device_automation/action/list'' device_id)
         = (ErrorResponse (Some (JInt n)) DeviceNotFound, []) \<and>
         websocket_device_automation_list_conditions hass rt
           (request rid ''device_automation/condition/list'' device_id)
         = (ErrorResponse (Some (JInt n)) DeviceNotFound, []) \<and>
         websocket_device_automation_list_triggers hass rt
           (request rid ''device_automation/trigger/list'' device_id)
         = (ErrorResponse (Some (JInt n)) DeviceNotFound, []) \<and>
         async_get_device_automations hass rt fname device_id = (Inl DeviceNotFound, [])"
  unfolding handlers_def handle_request [OF assms(2,3)]
  by (simp add: aggregate_unknown [OF device_domains_unknown [OF assms(1)]])

theorem unknown_device_fails_without_plugin_calls_witness:
  "device_registry example_hass ''D2'' = None \<and>
   coerce_int (JInt 7) = Some 7 \<and> (0::int) \<le> 7 \<and>
   websocket_device_automation_list_actions example_hass example_rt
       (request (JInt 7) ''device_automation/action/list'' ''D2'')
     = (ErrorResponse (Some (JInt 7)) DeviceNotFound, [])"
proof -
  have h: "device_registry example_hass ''D2'' = None" by (simp add: example_hass_def)
  have i: "coerce_int (JInt 7) = Some 7" by simp
  have j: "(0::int) \<le> 7" by simp
  from unknown_device_fails_without_plugin_calls [OF h i j, of example_rt] h i j
  show ?thesis by blast
qed

text \<open>
  Claim C2, as amended. Let the listing call of a domain of the device raise. Then the
  aggregation fails for every enumeration order and every order of completion: it never
  returns a list, the handler answers with an error response, and the exception is one that
  the fetch of some domain of the device raised. It is the exception of that listing call
  whenever its fetch finishes strictly before every other fetch that raises, in particular
  when no other fetch raises.
\<close>

theorem raising_listing_fails_the_request:
  assumes "device_domains hass device_id = Inr ds" and "d \<in> set ds"
    and "listing_call hass d fname device_id = Some (Inl err)"
  shows "(\<exists>err'. fst (async_get_device_automations hass rt fname device_id) = Inl err' \<and>
            fst (handle_list hass rt fname (request rid cmd device_id)) =
              ErrorResponse (Some rid) err' \<and>
            (\<exists>d' \<in> set ds.
               fst (async_get_device_automations_from_domain hass d' fname device_id) = Inl err')) \<and>
         ((\<forall>d' \<in> set ds. d' \<noteq> d \<and>
              isl (fst (async_get_device_automations_from_domain hass d' fname device_id)) \<longrightarrow>
              delay rt d < delay rt d') \<longrightarrow>
          fst (async_get_device_automations hass rt fname device_id) = Inl err)"
proof -
  have r: "fst (async_get_device_automations_from_domain hass d fname device_id) = Inl err"
    by (rule listing_call_fetch [OF assms(3)])
  with assms(2) have "\<exists>d \<in> set ds.
      isl (fst (async_get_device_automations_from_domain hass d fname device_id))"
    by (metis sum.disc(1))
  from aggregate_fail [OF assms(1) this, of rt] obtain err' where
    e: "fst (async_get_device_automations hass rt fname device_id) = Inl err'"
       "\<exists>d' \<in> set ds. fst (async_get_device_automations_from_domain hass d' fname device_id) = Inl err'"
    by blast
  have "fst (handle_list hass rt fname (request rid cmd device_id)) = ErrorResponse (Some rid) err'"
    by (simp add: handle_list_request e(1))
  with e aggregate_first [OF assms(1,2) r] show ?thesis by blast
qed

theorem raising_listing_fails_the_request_witness:
  "device_domains example_hass ''D4'' = Inr [''fan'', ''climate''] \<and>
   ''climate'' \<in> set [''fan'', ''climate''] \<and>
   listing_call example_hass ''climate'' ''async_get_conditions'' ''D4'' =
     Some (Inl (Exception ''climate failed'')) \<and>
   delay example_rt ''climate'' < delay example_rt ''fan'' \<and>
   fst (async_get_device_automations example_hass example_rt ''async_get_conditions'' ''D4'') =
     Inl (Exception ''climate failed'')"
proof -
  have h1: "device_domains example_hass ''D4'' = Inr [''fan'', ''climate'']" by code_simp
  have h2: "''climate'' \<in> set [''fan'', ''climate'']" by simp
  have h3: "listing_call example_hass ''climate'' ''async_get_conditions'' ''D4'' =
     Some (Inl (Exception ''climate failed''))" by code_simp
  have h4: "delay example_rt ''climate'' < delay example_rt ''fan''"
    by (simp add: example_rt_def)
  then have h5: "\<forall>d' \<in> set [''fan'', ''climate'']. d' \<noteq> ''climate'' \<and>
      isl (fst (async_get_device_automations_from_domain example_hass d'
                  ''async_get_conditions'' ''D4'')) \<longrightarrow>
      delay example_rt ''climate'' < delay example_rt d'"
    by simp
  from raising_listing_fails_the_request [OF h1 h2 h3, of example_rt] h5
  have "fst (async_get_device_automations example_hass example_rt ''async_get_conditions'' ''D4'') =
     Inl (Exception ''climate failed'')" by blast
  with h1 h2 h3 h4 show ?thesis by blast
qed

text \<open>
  Claim C2 as stated says that the request fails with the exception of any listing call that
  raises. Device \<open>D4\<close> has the domains fan and climate, and both condition listings raise.
  The fetch for climate finishes first, so the request fails with the exception of climate;
  the exception that the listing of fan raised is not the one the request fails with.
\<close>

theorem raising_listing_counterexample:
  "device_domains example_hass ''D4'' = Inr [''fan'', ''climate''] \<and>
   listing_call example_hass ''fan'' ''async_get_conditions'' ''D4'' =
     Some (Inl (Exception ''fan failed'')) \<and>
   fst (async_get_device_automations example_hass example_rt ''async_get_conditions'' ''D4'') =
     Inl (Exception ''climate failed'') \<and>
   fst (async_get_device_automations example_hass example_rt ''async_get_conditions'' ''D4'') \<noteq>
     Inl (Exception ''fan failed'')"
  by code_simp

text \<open>
  Claim C3. Let the loader raise IntegrationNotFound for a domain, or let its integration
  have no device automation platform (ImportError), or let the platform lack the listing
  asked for. Then the fetch for that domain yields \<^verbatim>\<open>None\<close> (Absent) and raises nothing; the
  aggregated outcome is the one obtained when the domain is served by an integration that
  lists an empty sequence; and when no other domain of the device raises, the aggregation
  raises nothing.
\<close>

theorem absent_domain_contributes_nothing:
  assumes "async_get_integration hass d = Inl (IntegrationNotFound m) \<or>
     (\<exists>integration. async_get_integration hass d = Inr integration \<and>
        (get_platform integration ''device_automation'' = Inl ImportError \<or>
         (\<exists>platform. get_platform integration ''device_automation'' = Inr platform \<and>
            platform fname = None)))"
  shows "fst (async_get_device_automations_from_domain hass d fname device_id) = Inr None \<and>
     fst (async_get_device_automations hass rt fname device_id) =
       fst (async_get_device_automations
             (hass\<lparr>async_get_integration := (async_get_integration hass)(d := Inr (lists_nothing fname))\<rparr>)
             rt fname device_id) \<and>
     (\<forall>ds. device_domains hass device_id = Inr ds \<and>
        (\<forall>d' \<in> set ds. d' \<noteq> d \<longrightarrow>
           \<not> isl (fst (async_get_device_automations_from_domain hass d' fname device_id))) \<longrightarrow>
        \<not> isl (fst (async_get_device_automations hass rt fname device_id)))"
proof -
  have a: "fst (async_get_device_automations_from_domain hass d fname device_id) = Inr None"
    by (rule fetch_absent [OF assms])
  have b: "fst (async_get_device_automations
             (hass\<lparr>async_get_integration := (async_get_integration hass)(d := Inr (lists_nothing fname))\<rparr>)
             rt fname device_id) = fst (async_get_device_automations hass rt fname device_id)"
    by (rule replace_integration) (simp add: a fetch_lists_nothing contribution_def)
  have c: "\<not> isl (fst (async_get_device_automations hass rt fname device_id))"
    if "device_domains hass device_id = Inr ds"
      and "\<forall>d' \<in> set ds. d' \<noteq> d \<longrightarrow>
           \<not> isl (fst (async_get_device_automations_from_domain hass d' fname device_id))" for ds
  proof (rule aggregate_no_raise [OF that(1)])
    show "\<forall>d \<in> set ds. \<not> isl (fst (async_get_device_automations_from_domain hass d fname device_id))"
      using that(2) a by (metis sum.disc(2))
  qed
  from a b c show ?thesis by (simp del: fun_upd_apply)
qed

theorem absent_domain_contributes_nothing_witness:
  "async_get_integration example_hass ''alarm'' = Inr (Integration (\<lambda>name. Inl ImportError)) \<and>
   get_platform (Integration (\<lambda>name. Inl ImportError)) ''device_automation'' = Inl ImportError \<and>
   fst (async_get_device_automations_from_domain example_hass ''alarm'' ''async_get_triggers'' ''D'')
     = Inr None \<and>
   fst (async_get_device_automations example_hass example_rt ''async_get_triggers'' ''D'') =
     fst (async_get_device_automations
           (example_hass\<lparr>async_get_integration :=
              (async_get_integration example_hass)
                (''alarm'' := Inr (lists_nothing ''async_get_triggers''))\<rparr>)
           example_rt ''async_get_triggers'' ''D'')"
proof -
  have h1: "async_get_integration example_hass ''alarm'' =
      Inr (Integration (\<lambda>name. Inl ImportError))"
    by (simp add: example_hass_def)
  have h2: "get_platform (Integration (\<lambda>name. Inl ImportError)) ''device_automation'' =
      Inl ImportError" by simp
  from h1 h2 have h: "async_get_integration example_hass ''alarm'' = Inl (IntegrationNotFound [])
     \<or> (\<exists>integration. async_get_integration example_hass ''alarm'' = Inr integration \<and>
        (get_platform integration ''device_automation'' = Inl ImportError \<or>
         (\<exists>platform. get_platform integration ''device_automation'' = Inr platform \<and>
            platform ''async_get_triggers'' = None)))"
    by blast
  from absent_domain_contributes_nothing [OF h, of "''D''" example_rt] h1 h2
  show ?thesis by blast
qed

text \<open>
  Claim C4. For a device of the registry whose config entries are known to the config-entry
  manager, the domains fanned out to (the domains whose integration is asked of the loader)
  are, as a set, the domains of the config entries of the device together with the prefixes
  before the first separator of the entity ids of the device; and none is asked twice.
\<close>

theorem fan_out_domains_deduplicated:
  assumes "device_registry hass device_id = Some dev"
    and "\<forall>eid \<in> set (config_entries dev). async_get_entry hass eid \<noteq> None"
  shows "distinct (resolved_domains (snd (async_get_device_automations hass rt fname device_id))) \<and>
     set (resolved_domains (snd (async_get_device_automations hass rt fname device_id))) =
       {domain ce | eid ce. eid \<in> set (config_entries dev) \<and> async_get_entry hass eid = Some ce}
       \<union> {takeWhile (\<lambda>c. c \<noteq> CHR ''.'') (entity_id e) | e.
             e \<in> set (async_entries_for_device hass device_id)}"
proof -
  from device_domains_known [OF assms] obtain ds where
    ds: "device_domains hass device_id = Inr ds" "distinct ds"
      "set ds = {domain ce | eid ce. eid \<in> set (config_entries dev) \<and> async_get_entry hass eid = Some ce}
            \<union> {takeWhile (\<lambda>c. c \<noteq> CHR ''.'') (entity_id e) | e.
                  e \<in> set (async_entries_for_device hass device_id)}"
    by blast
  show ?thesis unfolding aggregate_calls [OF ds(1)] using ds(2,3) by simp
qed

theorem fan_out_domains_deduplicated_witness:
  "device_registry example_hass ''D'' =
     Some \<lparr>config_entries = [''entry_alarm'', ''entry_light'']\<rparr> \<and>
   async_get_entry example_hass ''entry_alarm'' = Some \<lparr>domain = ''alarm''\<rparr> \<and>
   async_get_entry example_hass ''entry_light'' = Some \<lparr>domain = ''light''\<rparr> \<and>
   distinct (resolved_domains
     (snd (async_get_device_automations example_hass example_rt ''async_get_triggers'' ''D'')))"
proof -
  have h1: "device_registry example_hass ''D'' =
     Some \<lparr>config_entries = [''entry_alarm'', ''entry_light'']\<rparr>"
    by (simp add: example_hass_def)
  have e1: "async_get_entry example_hass ''entry_alarm'' = Some \<lparr>domain = ''alarm''\<rparr>"
    by (simp add: example_hass_def)
  have e2: "async_get_entry example_hass ''entry_light'' = Some \<lparr>domain = ''light''\<rparr>"
    by (simp add: example_hass_def)
  from e1 e2 have h2: "\<forall>eid \<in> set (config_entries
      \<lparr>config_entries = [''entry_alarm'', ''entry_light'']\<rparr>).
      async_get_entry example_hass eid \<noteq> None" by simp
  from fan_out_domains_deduplicated [OF h1 h2, of example_rt "''async_get_triggers''"] h1 e1 e2
  show ?thesis by blast
qed

text \<open>
  Claim C5. When every fetch for a domain of the device returns, the aggregated result is
  the concatenation of the results that are not \<^verbatim>\<open>None\<close>, each in the order its plugin gave,
  with the domains in the order in which they were enumerated (the order of the call log).
  The enumeration runs over exactly the domains of the device, and as a multiset the result
  is the sum of the contributions of the domains: no descriptor is dropped or duplicated.
\<close>

theorem result_is_concatenation_in_enumeration_order:
  assumes "device_domains hass device_id = Inr ds"
    and "\<forall>d \<in> set ds. fst (async_get_device_automations_from_domain hass d fname device_id) = Inr (res d)"
  shows "fst (async_get_device_automations hass rt fname device_id) =
       Inr (concat (map the (filter (\<lambda>r. r \<noteq> None) (map res
              (resolved_domains (snd (async_get_device_automations hass rt fname device_id))))))) \<and>
     set (resolved_domains (snd (async_get_device_automations hass rt fname device_id))) = set ds \<and>
     map_option mset (merged (fst (async_get_device_automations hass rt fname device_id))) =
       Some (\<Sum>d \<in> set ds. mset (contribution (res d)))"
proof -
  let ?en = "sort_key (set_rank rt) ds"
  have c: "concat (map the (filter (\<lambda>r. r \<noteq> None) (map res ?en))) =
        concat (map (\<lambda>d. contribution (res d)) ?en)"
    using concat_non_absent [of "map res ?en"]
    by (simp only: map_map comp_def contribution_def)
  have "distinct ?en" using device_domains_distinct [OF assms(1)] by simp
  then have "mset (concat (map (\<lambda>d. contribution (res d)) ?en)) =
        (\<Sum>d \<in> set ?en. mset (contribution (res d)))"
    by (simp add: mset_concat comp_def sum_list_distinct_conv_sum_set)
  then show ?thesis
    unfolding aggregate_calls [OF assms(1)] aggregate_ok [OF assms] c
    by (simp add: merged_def)
qed

theorem result_is_concatenation_in_enumeration_order_witness:
  "device_domains example_hass ''D'' = Inr [''sensor'', ''light'', ''alarm''] \<and>
   fst (async_get_device_automations_from_domain example_hass ''sensor'' ''async_get_triggers'' ''D'')
     = Inr None \<and>
   fst (async_get_device_automations_from_domain example_hass ''light'' ''async_get_triggers'' ''D'')
     = Inr (Some [''T1'']) \<and>
   fst (async_get_device_automations_from_domain example_hass ''alarm'' ''async_get_triggers'' ''D'')
     = Inr None \<and>
   fst (async_get_device_automations example_hass example_rt ''async_get_triggers'' ''D'') =
     Inr (concat (map the (filter (\<lambda>r. r \<noteq> None)
       (map (\<lambda>d. if d = ''light'' then Some [''T1''] else None)
          (resolved_domains (snd (async_get_device_automations example_hass example_rt
              ''async_get_triggers'' ''D'')))))))"
proof -
  have h1: "device_domains example_hass ''D'' = Inr [''sensor'', ''light'', ''alarm'']"
    by code_simp
  have f1: "fst (async_get_device_automations_from_domain example_hass ''sensor''
      ''async_get_triggers'' ''D'') = Inr None" by code_simp
  have f2: "fst (async_get_device_automations_from_domain example_hass ''light''
      ''async_get_triggers'' ''D'') = Inr (Some [''T1''])" by code_simp
  have f3: "fst (async_get_device_automations_from_domain example_hass ''alarm''
      ''async_get_triggers'' ''D'') = Inr None" by code_simp
  from f1 f2 f3 have h2: "\<forall>d \<in> set [''sensor'', ''light'', ''alarm''].
      fst (async_get_device_automations_from_domain example_hass d ''async_get_triggers'' ''D'') =
      Inr ((\<lambda>d. if d = ''light'' then Some [''T1''] else None) d)" by simp
  from result_is_concatenation_in_enumeration_order [OF h1 h2, of example_rt] h1 f1 f2 f3
  show ?thesis by blast
qed

text \<open>
  Claim C6. For a device of the registry with no config entry and no entity, each of the
  three handlers answers the request (any request with an id that the protocol accepts)
  with the empty list, and no call is made.
\<close>

theorem no_domains_empty_result:
  assumes "device_registry hass device_id = Some dev"
    and "config_entries dev = []"
    and "async_entries_for_device hass device_id = []"
    and "coerce_int rid = Some n" and "0 \<le> n"
  shows "websocket_device_automation_list_actions hass rt
           (request rid ''device_automation/action/list'' device_id)
         = (Result (Some (JInt n)) [], []) \<and>
         websocket_device_automation_list_conditions hass rt
           (request rid ''device_automation/condition/list'' device_id)
         = (Result (Some (JInt n)) [], []) \<and>
         websocket_device_automation_list_triggers hass rt
           (request rid ''device_automation/trigger/list'' device_id)
         = (Result (Some (JInt n)) [], [])"
proof -
  have d: "device_domains hass device_id = Inr []"
    by (simp add: device_domains_def assms(1-3) add_entity_domains_def)
  have "\<And>fname. async_get_device_automations hass rt fname device_id = (Inr [], [])"
    by (simp add: async_get_device_automations_def d gather_def extend_all_def)
  then show ?thesis unfolding handlers_def handle_request [OF assms(4,5)] by simp
qed

theorem no_domains_empty_result_witness:
  "device_registry example_hass ''D5'' = Some \<lparr>config_entries = []\<rparr> \<and>
   config_entries \<lparr>config_entries = []\<rparr> = [] \<and>
   async_entries_for_device example_hass ''D5'' = [] \<and>
   coerce_int (JInt 1) = Some 1 \<and> (0::int) \<le> 1 \<and>
   websocket_device_automation_list_actions example_hass example_rt
       (request (JInt 1) ''device_automation/action/list'' ''D5'') =
     (Result (Some (JInt 1)) [], [])"
proof -
  have h1: "device_registry example_hass ''D5'' = Some \<lparr>config_entries = []\<rparr>"
    by (simp add: example_hass_def)
  have h2: "config_entries \<lparr>config_entries = []\<rparr> = []" by simp
  have h3: "async_entries_for_device example_hass ''D5'' = []"
    by (simp add: example_hass_def)
  have h4: "coerce_int (JInt 1) = Some 1" by simp
  have h5: "(0::int) \<le> 1" by simp
  from no_domains_empty_result [OF h1 h2 h3 h4 h5, of example_rt] h1 h2 h3 h4 h5
  show ?thesis by blast
qed

text \<open>
  Claim C7. Whatever the delays of the fetches, the concurrent aggregation hands back a list
  exactly when the sequential aggregation over the same enumeration does, and then the same
  list; so two orders of completion give the same result, as lists and hence as multisets.
  Which exception is raised when several fetches raise is not part of the merged result.
\<close>

theorem completion_order_does_not_change_merged_result:
  "merged (fst (async_get_device_automations hass (rt\<lparr>delay := dl\<rparr>) fname device_id)) =
     merged (sequential_get_device_automations hass (set_rank rt) fname device_id) \<and>
   map_option mset
     (merged (fst (async_get_device_automations hass (rt\<lparr>delay := dl\<rparr>) fname device_id))) =
   map_option mset
     (merged (fst (async_get_device_automations hass (rt\<lparr>delay := dl'\<rparr>) fname device_id)))"
proof -
  have "\<And>dl. merged (fst (async_get_device_automations hass (rt\<lparr>delay := dl\<rparr>) fname device_id)) =
     merged (sequential_get_device_automations hass (set_rank rt) fname device_id)"
  proof -
    fix dl
    show "merged (fst (async_get_device_automations hass (rt\<lparr>delay := dl\<rparr>) fname device_id)) =
       merged (sequential_get_device_automations hass (set_rank rt) fname device_id)"
    proof (cases "device_domains hass device_id")
      case (Inl err)
      then show ?thesis
        by (simp add: aggregate_merged_unknown sequential_get_device_automations_def merged_simps)
    next
      case (Inr ds)
      show ?thesis
        unfolding aggregate_merged [OF Inr] sequential_get_device_automations_def Inr
        by (simp add: fetch_sequentially_merged)
    qed
  qed
  then show ?thesis by simp
qed

theorem completion_order_does_not_change_merged_result_witness:
  "merged (fst (async_get_device_automations example_hass (example_rt\<lparr>delay := length\<rparr>)
             ''async_get_triggers'' ''D'')) =
   merged (sequential_get_device_automations example_hass (set_rank example_rt)
             ''async_get_triggers'' ''D'')"
  using completion_order_does_not_change_merged_result
          [where hass = example_hass and rt = example_rt and dl = length and dl' = length
             and fname = "''async_get_triggers''" and device_id = "''D''"]
  by blast

text \<open>
  Claim C8. Two calls of the same listing operation on the same registries and plugins,
  under any two enumeration orders and any two orders of completion, either both raise or
  both return, and the lists they return are equal as multisets.
\<close>

theorem repeated_call_same_multiset:
  "map_option mset (merged (fst (async_get_device_automations hass rt fname device_id))) =
   map_option mset (merged (fst (async_get_device_automations hass rt' fname device_id)))"
proof (cases "device_domains hass device_id")
  case (Inl err)
  then show ?thesis by (simp add: aggregate_merged_unknown)
next
  case (Inr ds)
  show ?thesis unfolding aggregate_merged [OF Inr]
    by (simp add: mset_concat_map_sort)
qed

theorem repeated_call_same_multiset_witness:
  "map_option mset (merged (fst (async_get_device_automations example_hass example_rt
       ''async_get_triggers'' ''D''))) =
   map_option mset (merged (fst (async_get_device_automations example_hass
       \<lparr>set_rank = (\<lambda>dmn. 10 - length dmn), delay = length\<rparr> ''async_get_triggers'' ''D'')))"
  using repeated_call_same_multiset
          [where hass = example_hass and rt = example_rt
             and fname = "''async_get_triggers''" and device_id = "''D''"
             and rt' = "\<lparr>set_rank = (\<lambda>dmn. 10 - length dmn), delay = length\<rparr>"]
  by blast

text \<open>
  Claim C9. Let the listing call of a domain return \<^verbatim>\<open>None\<close>. Then the fetch yields \<^verbatim>\<open>None\<close>
  and raises nothing, and the aggregated outcome is the one obtained when the loader does
  not find the domain at all. When the other domains of the device return, the request
  returns the concatenation of their contributions in the order of enumeration; the
  enumeration runs once over each domain of the device, so as a multiset the result is the
  sum of the contributions of the other domains of the device.
\<close>

theorem none_result_is_skipped:
  assumes "listing_call hass d fname device_id = Some (Inr None)"
  shows "fst (async_get_device_automations_from_domain hass d fname device_id) = Inr None \<and>
     fst (async_get_device_automations hass rt fname device_id) =
       fst (async_get_device_automations
             (hass\<lparr>async_get_integration :=
                (async_get_integration hass)(d := Inl (IntegrationNotFound d))\<rparr>)
             rt fname device_id) \<and>
     (device_domains hass device_id = Inr ds \<and>
        (\<forall>d' \<in> set ds. d' \<noteq> d \<longrightarrow>
           fst (async_get_device_automations_from_domain hass d' fname device_id) = Inr (res d')) \<longrightarrow>
        fst (async_get_device_automations hass rt fname device_id) =
          Inr (concat (map (\<lambda>d'. contribution (res d'))
                 (filter (\<lambda>d'. d' \<noteq> d)
                    (resolved_domains
                       (snd (async_get_device_automations hass rt fname device_id)))))) \<and>
        set (resolved_domains
               (snd (async_get_device_automations hass rt fname device_id))) = set ds \<and>
        distinct (resolved_domains
               (snd (async_get_device_automations hass rt fname device_id))) \<and>
        map_option mset (merged (fst (async_get_device_automations hass rt fname device_id))) =
          Some (\<Sum>d' \<in> set ds - {d}. mset (contribution (res d'))))"
proof -
  have a: "fst (async_get_device_automations_from_domain hass d fname device_id) = Inr None"
    by (rule listing_call_fetch [OF assms])
  have b: "fst (async_get_device_automations
             (hass\<lparr>async_get_integration :=
                (async_get_integration hass)(d := Inl (IntegrationNotFound d))\<rparr>)
             rt fname device_id) = fst (async_get_device_automations hass rt fname device_id)"
    by (rule replace_integration) (simp add: a fetch_not_found)
  have c: "fst (async_get_device_automations hass rt fname device_id) =
          Inr (concat (map (\<lambda>d'. contribution (res d'))
                 (filter (\<lambda>d'. d' \<noteq> d)
                    (resolved_domains
                       (snd (async_get_device_automations hass rt fname device_id)))))) \<and>
        set (resolved_domains
               (snd (async_get_device_automations hass rt fname device_id))) = set ds \<and>
        distinct (resolved_domains
               (snd (async_get_device_automations hass rt fname device_id))) \<and>
        map_option mset (merged (fst (async_get_device_automations hass rt fname device_id))) =
          Some (\<Sum>d' \<in> set ds - {d}. mset (contribution (res d')))"
    if dd: "device_domains hass device_id = Inr ds"
      and o: "\<forall>d' \<in> set ds. d' \<noteq> d \<longrightarrow>
           fst (async_get_device_automations_from_domain hass d' fname device_id) = Inr (res d')"
  proof -
    let ?en = "sort_key (set_rank rt) ds"
    let ?others = "filter (\<lambda>d'. d' \<noteq> d) ?en"
    have "\<forall>d' \<in> set ds. fst (async_get_device_automations_from_domain hass d' fname device_id) =
        Inr ((res(d := None)) d')"
      using o a by simp
    from aggregate_ok [OF dd this, of rt]
    have r: "fst (async_get_device_automations hass rt fname device_id) =
        Inr (concat (map (\<lambda>d'. contribution (res d')) ?others))"
      unfolding concat_skip .
    have dist: "distinct ?en" using device_domains_distinct [OF dd] by simp
    then have "distinct ?others" by simp
    then have "mset (concat (map (\<lambda>d'. contribution (res d')) ?others)) =
        (\<Sum>d' \<in> set ?others. mset (contribution (res d')))"
      by (simp add: mset_concat comp_def sum_list_distinct_conv_sum_set)
    moreover have "set ?others = set ds - {d}" by auto
    ultimately have m: "mset (concat (map (\<lambda>d'. contribution (res d')) ?others)) =
        (\<Sum>d' \<in> set ds - {d}. mset (contribution (res d')))" by simp
    show ?thesis
      unfolding aggregate_calls [OF dd] r using dist m by (simp add: merged_simps)
  qed
  from a b [symmetric] c show ?thesis by blast
qed

theorem none_result_is_skipped_witness:
  "listing_call example_hass ''sensor'' ''async_get_triggers'' ''D'' = Some (Inr None) \<and>
   device_domains example_hass ''D'' = Inr [''sensor'', ''light'', ''alarm''] \<and>
   fst (async_get_device_automations_from_domain example_hass ''light'' ''async_get_triggers'' ''D'')
     = Inr (Some [''T1'']) \<and>
   fst (async_get_device_automations_from_domain example_hass ''alarm'' ''async_get_triggers'' ''D'')
     = Inr None \<and>
   fst (async_get_device_automations_from_domain example_hass ''sensor'' ''async_get_triggers'' ''D'')
     = Inr None \<and>
   fst (async_get_device_automations example_hass example_rt ''async_get_triggers'' ''D'') =
     fst (async_get_device_automations
           (example_hass\<lparr>async_get_integration :=
              (async_get_integration example_hass)
                (''sensor'' := Inl (IntegrationNotFound ''sensor''))\<rparr>)
           example_rt ''async_get_triggers'' ''D'') \<and>
   set (resolved_domains (snd (async_get_device_automations example_hass example_rt
          ''async_get_triggers'' ''D''))) = set [''sensor'', ''light'', ''alarm''] \<and>
   map_option mset (merged (fst (async_get_device_automations example_hass example_rt
          ''async_get_triggers'' ''D''))) =
     Some (\<Sum>d' \<in> set [''sensor'', ''light'', ''alarm''] - {''sensor''}.
             mset (contribution (if d' = ''light'' then Some [''T1''] else None)))"
proof -
  have h: "listing_call example_hass ''sensor'' ''async_get_triggers'' ''D'' = Some (Inr None)"
    by code_simp
  have h1: "device_domains example_hass ''D'' = Inr [''sensor'', ''light'', ''alarm'']"
    by code_simp
  have f2: "fst (async_get_device_automations_from_domain example_hass ''light''
      ''async_get_triggers'' ''D'') = Inr (Some [''T1''])" by code_simp
  have f3: "fst (async_get_device_automations_from_domain example_hass ''alarm''
      ''async_get_triggers'' ''D'') = Inr None" by code_simp
  from f2 f3 have h2: "\<forall>d' \<in> set [''sensor'', ''light'', ''alarm'']. d' \<noteq> ''sensor'' \<longrightarrow>
      fst (async_get_device_automations_from_domain example_hass d' ''async_get_triggers'' ''D'') =
      Inr ((\<lambda>d'. if d' = ''light'' then Some [''T1''] else None) d')" by simp
  from none_result_is_skipped
         [OF h, where rt = example_rt and ds = "[''sensor'', ''light'', ''alarm'']"
            and res = "\<lambda>d'. if d' = ''light'' then Some [''T1''] else None"]
       h h1 h2 f2 f3
  show ?thesis by blast
qed

text \<open>
  Claim C10. Take a request with the three keys of a command and no other, an id that the
  protocol accepts, and under \<open>device_id\<close> any string, the empty string included. If its type
  is the command of a handler, the schema of that command accepts it, and the handler answers
  with the outcome of the aggregation for exactly that string: no check on the string is
  made at the boundary.
\<close>

theorem handlers_accept_any_device_id_string:
  assumes "fst ` set msg \<subseteq> {''id'', ''type'', ''device_id''}"
    and "map_of msg ''id'' = Some rid" and "coerce_int rid = Some n" and "0 \<le> n"
    and "map_of msg ''device_id'' = Some (JStr s)"
  shows "(map_of msg ''type'' = Some (JStr ''device_automation/action/list'') \<longrightarrow>
            schema_accepts (command_schema list_actions_schema) msg \<and>
            websocket_device_automation_list_actions hass rt msg =
              async_response (request (JInt n) ''device_automation/action/list'' s)
                (async_get_device_automations hass rt ''async_get_actions'' s)) \<and>
         (map_of msg ''type'' = Some (JStr ''device_automation/condition/list'') \<longrightarrow>
            schema_accepts (command_schema list_conditions_schema) msg \<and>
            websocket_device_automation_list_conditions hass rt msg =
              async_response (request (JInt n) ''device_automation/condition/list'' s)
                (async_get_device_automations hass rt ''async_get_conditions'' s)) \<and>
         (map_of msg ''type'' = Some (JStr ''device_automation/trigger/list'') \<longrightarrow>
            schema_accepts (command_schema list_triggers_schema) msg \<and>
            websocket_device_automation_list_triggers hass rt msg =
              async_response (request (JInt n) ''device_automation/trigger/list'' s)
                (async_get_device_automations hass rt ''async_get_triggers'' s))"
  unfolding handlers_def
  using handler_valid(1) [OF assms(1-4) _ assms(5)]
        handler_valid(2) [OF assms(1-4) _ assms(5)]
  by blast

theorem handlers_accept_any_device_id_string_witness:
  "fst ` set [(''type'', JStr ''device_automation/action/list''), (''device_id'', JStr []),
              (''id'', JStr ''12'')] \<subseteq> {''id'', ''type'', ''device_id''} \<and>
   coerce_int (JStr ''12'') = Some 12 \<and> (0::int) \<le> 12 \<and>
   schema_accepts (command_schema list_actions_schema)
     [(''type'', JStr ''device_automation/action/list''), (''device_id'', JStr []),
      (''id'', JStr ''12'')] \<and>
   websocket_device_automation_list_actions example_hass example_rt
     [(''type'', JStr ''device_automation/action/list''), (''device_id'', JStr []),
      (''id'', JStr ''12'')] =
     async_response (request (JInt 12) ''device_automation/action/list'' [])
       (async_get_device_automations example_hass example_rt ''async_get_actions'' [])"
proof -
  let ?msg = "[(''type'', JStr ''device_automation/action/list''), (''device_id'', JStr []),
               (''id'', JStr ''12'')]"
  have h1: "fst ` set ?msg \<subseteq> {''id'', ''type'', ''device_id''}" by simp
  have h2: "map_of ?msg ''id'' = Some (JStr ''12'')" by simp
  have h3: "coerce_int (JStr ''12'') = Some 12" by code_simp
  have h4: "(0::int) \<le> 12" by simp
  have h5: "map_of ?msg ''device_id'' = Some (JStr [])" by simp
  have h6: "map_of ?msg ''type'' = Some (JStr ''device_automation/action/list'')" by simp
  from handlers_accept_any_device_id_string
         [OF h1 h2 h3 h4 h5, where hass = example_hass and rt = example_rt] h1 h3 h4 h6
  show ?thesis by blast
qed

end
